theory Spec2Isabelle
  imports Main
begin

section \<open>Python values, exceptions and containers\<close>

text \<open>
  The exceptions \<open>array2df\<close> and \<open>_check_dict\<close> of \<^verbatim>\<open>mypy/utils.py\<close> can end
  with. A function that may raise returns \<open>error + 'a\<close>, \<open>Inl\<close> carrying the exception.
\<close>

datatype error = AssertionError | IndexError | KeyError | AttributeError | TypeError

text \<open>
  \<open>xs[i]\<close> on a list or tuple: a negative index counts from the end, an index out of
  range raises IndexError.
\<close>

definition list_getitem :: "'a list \<Rightarrow> int \<Rightarrow> error + 'a" where
  "list_getitem xs i =
     (if 0 \<le> i \<and> i < int (length xs) then Inr (xs ! nat i)
      else if i < 0 \<and> - int (length xs) \<le> i then Inr (xs ! nat (int (length xs) + i))
      else Inl IndexError)"

text \<open>
  A dict is the list of its items in insertion order. \<open>d[k]\<close> raises KeyError on a
  missing key; \<open>d[k] = v\<close> replaces the value of a key in place or appends a new item.
\<close>

definition dict_getitem :: "('k \<times> 'v) list \<Rightarrow> 'k \<Rightarrow> error + 'v" where
  "dict_getitem d k = (case map_of d k of None \<Rightarrow> Inl KeyError | Some v \<Rightarrow> Inr v)"

text \<open>
  A comprehension \<open>[f(x) for x in xs]\<close> whose element expression may raise: the first
  exception ends it.
\<close>

fun comprehension :: "('a \<Rightarrow> error + 'b) \<Rightarrow> 'a list \<Rightarrow> error + 'b list" where
  "comprehension f [] = Inr []"
| "comprehension f (x # xs) =
     (case f x of
        Inl e \<Rightarrow> Inl e
      | Inr y \<Rightarrow> (case comprehension f xs of Inl e \<Rightarrow> Inl e | Inr ys \<Rightarrow> Inr (y # ys)))"

text \<open>
  A loop \<open>for x in xs: body\<close> over a state \<open>s\<close> whose body may raise.
\<close>

fun for_loop :: "('a \<Rightarrow> 's \<Rightarrow> error + 's) \<Rightarrow> 'a list \<Rightarrow> 's \<Rightarrow> error + 's" where
  "for_loop body [] s = Inr s"
| "for_loop body (x # xs) s =
     (case body x s of Inl e \<Rightarrow> Inl e | Inr s' \<Rightarrow> for_loop body xs s')"

text \<open>\<open>str(n)\<close> of a natural number: its decimal digits.\<close>

definition digit :: "nat \<Rightarrow> char" where
  "digit d = ''0123456789'' ! d"

fun str_py :: "nat \<Rightarrow> string" where
  "str_py n = (if n < 10 then [digit n] else str_py (n div 10) @ [digit (n mod 10)])"

declare str_py.simps [simp del]

text \<open>
  \<open>itertools.product(*iterables)\<close>: the Cartesian product, the last iterable
  advancing fastest.
\<close>

fun product_py :: "'a list list \<Rightarrow> 'a list list" where
  "product_py [] = [[]]"
| "product_py (xs # xss) = concat (map (\<lambda>x. map (Cons x) (product_py xss)) xs)"

text \<open>\<open>range(n)\<close>: the numbers below \<open>n\<close>, ascending.\<close>

definition range_py :: "nat \<Rightarrow> nat list" where
  "range_py n = [0..<n]"

section \<open>The data of \<open>array2df\<close>\<close>

text \<open>
  A numpy array: its \<open>shape\<close> and the element \<open>arr[adr]\<close> at each multi-index. Only
  addresses within the shape are ever read. \<open>ndim\<close> and \<open>size\<close> follow from the shape.
\<close>

record 'a ndarray =
  shape :: "nat list"
  item :: "nat list \<Rightarrow> 'a"

definition ndim :: "'a ndarray \<Rightarrow> nat" where
  "ndim arr = length (shape arr)"

definition size_of :: "'a ndarray \<Rightarrow> nat" where
  "size_of arr = prod_list (shape arr)"

text \<open>
  One dimension's group specification, as the argument \<open>dct\<close> of \<open>_check_dict\<close>: a dict
  or a sequence of labels. The items of a dict are of the three documented forms
  (\<open>str -> list\<close> of positions, \<open>tuple -> str\<close>, \<open>int -> str\<close>); one dict may mix them.
\<close>

datatype entry =
    ByLabel string "int list"
  | ByTuple "int list" string
  | ByPos int string

datatype group = Dict "entry list" | Seq "string list"

text \<open>\<open>isinstance(k, str)\<close> and \<open>isinstance(k, tuple)\<close> of an item's key.\<close>

fun is_str_key :: "entry \<Rightarrow> bool" where
  "is_str_key (ByLabel k vals) = True"
| "is_str_key _ = False"

fun is_tuple_key :: "entry \<Rightarrow> bool" where
  "is_tuple_key (ByTuple k val) = True"
| "is_tuple_key _ = False"

text \<open>
  \<open>new_dct[p] = label\<close> for an integer key: the item with key \<open>p\<close> is replaced where
  it stands, or a new one is appended. A string or tuple key never equals an integer.
\<close>

fun setitem :: "entry list \<Rightarrow> int \<Rightarrow> string \<Rightarrow> entry list" where
  "setitem [] p label = [ByPos p label]"
| "setitem (ByPos q l # es) p label =
     (if q = p then ByPos p label # es else ByPos q l # setitem es p label)"
| "setitem (e # es) p label = e # setitem es p label"

text \<open>\<open>d.get(p)\<close> for an integer key \<open>p\<close>.\<close>

fun dict_get :: "entry list \<Rightarrow> int \<Rightarrow> string option" where
  "dict_get [] p = None"
| "dict_get (ByPos q l # es) p = (if q = p then Some l else dict_get es p)"
| "dict_get (e # es) p = dict_get es p"

text \<open>
  \<open>g[p]\<close> on a normalized group: KeyError for a dict without the key, IndexError
  for a sequence that is too short.
\<close>

fun group_getitem :: "group \<Rightarrow> int \<Rightarrow> error + string" where
  "group_getitem (Dict es) p = (case dict_get es p of None \<Rightarrow> Inl KeyError | Some l \<Rightarrow> Inr l)"
| "group_getitem (Seq ls) p = list_getitem ls p"

text \<open>
  The arguments \<open>dim_names\<close> and \<open>groups\<close>: a dict keyed by dimension, or a list; the
  Python default \<open>None\<close> is \<open>None\<close> of an option type.
\<close>

datatype names = NamesDict "(int \<times> string) list" | NamesList "string list"

datatype groups = GroupsDict "(int \<times> group) list" | GroupsList "group list"

fun names_getitem :: "names \<Rightarrow> int \<Rightarrow> error + string" where
  "names_getitem (NamesDict d) i = dict_getitem d i"
| "names_getitem (NamesList l) i = list_getitem l i"

fun groups_getitem :: "groups \<Rightarrow> int \<Rightarrow> error + group" where
  "groups_getitem (GroupsDict d) i = dict_getitem d i"
| "groups_getitem (GroupsList l) i = list_getitem l i"

text \<open>
  A pandas DataFrame with the index \<open>0..n-1\<close>: the column labels, the rows (one cell
  per column), and the dtype of each column. A cell is empty (NaN), an array element or
  a label.
\<close>

datatype 'a cell = NaN | Num 'a | Lab string

datatype dtype = Object | Numeric

record 'a DataFrame =
  columns :: "string list"
  rows :: "'a cell list list"
  dtypes :: "dtype list"

text \<open>
  \<open>pd.DataFrame(columns=col_names, index=np.arange(n))\<close>: \<open>n\<close> rows of NaN, every
  column of dtype object.
\<close>

definition new_DataFrame :: "string list \<Rightarrow> nat \<Rightarrow> 'a DataFrame" where
  "new_DataFrame col_names n =
     \<lparr>columns = col_names,
      rows = replicate n (replicate (length col_names) NaN),
      dtypes = replicate (length col_names) Object\<rparr>"

text \<open>
  \<open>df.loc[idx, name] = v\<close> for an existing row \<open>idx\<close>: the cell of every column
  labelled \<open>name\<close> is set. (\<open>array2df\<close> only assigns to rows and columns the frame was
  created with, so the enlarging case of pandas does not arise.)
\<close>

definition loc_set :: "'a DataFrame \<Rightarrow> nat \<Rightarrow> string \<Rightarrow> 'a cell \<Rightarrow> 'a DataFrame" where
  "loc_set df idx name v =
     df\<lparr>rows := (rows df)[idx :=
        map (\<lambda>(c, old). if c = name then v else old) (zip (columns df) (rows df ! idx))]\<rparr>"

text \<open>
  The two pandas methods of the dtype inference step, which depend on the installed
  pandas version: \<open>df.infer_objects()\<close> and the older
  \<open>df.convert_objects(convert_numeric=True)\<close>. Either may raise (AttributeError where
  the method does not exist).
\<close>

record 'a pandas =
  infer_objects :: "'a DataFrame \<Rightarrow> error + 'a DataFrame"
  convert_objects :: "'a DataFrame \<Rightarrow> error + 'a DataFrame"

section \<open>\<open>_check_dict\<close>\<close>

text \<open>
  The inner loops of both branches have one shape:
  \<^verbatim>\<open>for val in positions: new_dct[val] = label; vals_set.add(val)\<close>.
\<close>

definition assign_positions ::
  "int list \<Rightarrow> string \<Rightarrow> entry list \<times> int set \<Rightarrow> entry list \<times> int set" where
  "assign_positions positions label st =
     fold (\<lambda>val (new_dct, vals_set). (setitem new_dct val label, insert val vals_set))
       positions st"

text \<open>
  The outer loop body of each branch. In the string branch every item is
  \<open>ByLabel\<close>, in the tuple branch every item is \<open>ByTuple\<close>; the other cases are
  unreachable there.
\<close>

fun str_keys_step :: "entry \<Rightarrow> entry list \<times> int set \<Rightarrow> entry list \<times> int set" where
  "str_keys_step (ByLabel k vals) st = assign_positions vals k st"
| "str_keys_step _ st = st"

fun tuple_keys_step :: "entry \<Rightarrow> entry list \<times> int set \<Rightarrow> entry list \<times> int set" where
  "tuple_keys_step (ByTuple k val) st = assign_positions k val st"
| "tuple_keys_step _ st = st"

fun check_dict :: "group \<Rightarrow> nat \<Rightarrow> error + group" where
  "check_dict (Dict dct) dim_len =
     (if list_all is_str_key dct then
        (case fold str_keys_step dct ([], {}) of
           (new_dct, vals_set) \<Rightarrow>
             if card vals_set = dim_len then Inr (Dict new_dct) else Inl AssertionError)
      else if list_all is_tuple_key dct then
        (case fold tuple_keys_step dct ([], {}) of
           (new_dct, i_set) \<Rightarrow>
             if card i_set = dim_len then Inr (Dict new_dct) else Inl AssertionError)
      else Inr (Dict dct))"
| "check_dict (Seq dct) dim_len =
     (if length dct = dim_len then Inr (Seq dct) else Inl AssertionError)"

section \<open>\<open>array2df\<close>\<close>

text \<open>\<open>dim_letters = list('ijklmnop')[:n_dim]\<close>\<close>

definition dim_letters :: "nat \<Rightarrow> string list" where
  "dim_letters n_dim = take n_dim (map (\<lambda>c. [c]) ''ijklmnop'')"

text \<open>\<open>{dim: 'dim_{}'.format(l) for dim, l in enumerate(dim_letters)}\<close>\<close>

definition default_dim_names :: "string list \<Rightarrow> names" where
  "default_dim_names letters =
     NamesDict (map (\<lambda>(dim, l). (int dim, ''dim_'' @ l)) (enumerate 0 letters))"

text \<open>
  \<open>{i: dim_letters[dim] + str(i) for i in range(shape[dim])}\<close>: \<open>dim_letters[dim]\<close> is
  evaluated once per element, so an empty range never reads it.
\<close>

definition default_group :: "string list \<Rightarrow> nat \<Rightarrow> nat \<Rightarrow> error + group" where
  "default_group letters dim n =
     (case comprehension
             (\<lambda>i. case list_getitem letters (int dim) of
                     Inl e \<Rightarrow> Inl e
                   | Inr l \<Rightarrow> Inr (ByPos (int i) (l @ str_py i)))
             (range_py n) of
        Inl e \<Rightarrow> Inl e
      | Inr es \<Rightarrow> Inr (Dict es))"

text \<open>\<open>{dim: {...} for dim in range(n_dim)}\<close>\<close>

definition default_groups :: "string list \<Rightarrow> nat list \<Rightarrow> error + groups" where
  "default_groups letters shp =
     (case comprehension
             (\<lambda>dim. case default_group letters dim (shp ! dim) of
                       Inl e \<Rightarrow> Inl e
                     | Inr g \<Rightarrow> Inr (int dim, g))
             (range_py (length shp)) of
        Inl e \<Rightarrow> Inl e
      | Inr d \<Rightarrow> Inr (GroupsDict d))"

text \<open>
  The \<open>else\<close> branch for caller-supplied groups: every entry goes through
  \<open>_check_dict(groups[dim], shape[dim])\<close>, for the keys of a dict or the positions of a
  list. \<open>shape[dim]\<close> is a tuple index and may raise IndexError.
\<close>

fun check_groups :: "nat list \<Rightarrow> groups \<Rightarrow> error + groups" where
  "check_groups shp (GroupsDict gs) =
     (case comprehension
             (\<lambda>(dim, g). case list_getitem shp dim of
                            Inl e \<Rightarrow> Inl e
                          | Inr n \<Rightarrow> (case check_dict g n of
                                       Inl e \<Rightarrow> Inl e
                                     | Inr g' \<Rightarrow> Inr (dim, g')))
             gs of
        Inl e \<Rightarrow> Inl e
      | Inr d \<Rightarrow> Inr (GroupsDict d))"
| "check_groups shp (GroupsList gl) =
     (case comprehension
             (\<lambda>dim. case list_getitem gl (int dim) of
                       Inl e \<Rightarrow> Inl e
                     | Inr g \<Rightarrow> (case list_getitem shp (int dim) of
                                  Inl e \<Rightarrow> Inl e
                                | Inr n \<Rightarrow> check_dict g n))
             (range_py (length gl)) of
        Inl e \<Rightarrow> Inl e
      | Inr l \<Rightarrow> Inr (GroupsList l))"

text \<open>
  The inner loop of the population:
  \<^verbatim>\<open>for dim_idx, dim_adr in enumerate(adr):
      df.loc[idx, dim_names[dim_idx]] = groups[dim_idx][dim_adr]\<close>
  The right-hand side is evaluated before the target's subscript.
\<close>

definition set_label ::
  "names \<Rightarrow> groups \<Rightarrow> nat \<Rightarrow> nat \<times> nat \<Rightarrow> 'a DataFrame \<Rightarrow> error + 'a DataFrame" where
  "set_label dim_names grps idx = (\<lambda>(dim_idx, dim_adr) df.
     case groups_getitem grps (int dim_idx) of
       Inl e \<Rightarrow> Inl e
     | Inr g \<Rightarrow>
        (case group_getitem g (int dim_adr) of
           Inl e \<Rightarrow> Inl e
         | Inr label \<Rightarrow>
            (case names_getitem dim_names (int dim_idx) of
               Inl e \<Rightarrow> Inl e
             | Inr name \<Rightarrow> Inr (loc_set df idx name (Lab label)))))"

text \<open>
  The outer loop body:
  \<^verbatim>\<open>df.loc[idx, value_name] = arr[adr]\<close> and then the inner loop.
\<close>

definition fill_row ::
  "'a ndarray \<Rightarrow> names \<Rightarrow> groups \<Rightarrow> string \<Rightarrow> nat \<times> nat list \<Rightarrow> 'a DataFrame
     \<Rightarrow> error + 'a DataFrame" where
  "fill_row arr dim_names grps value_name = (\<lambda>(idx, adr) df.
     for_loop (set_label dim_names grps idx) (enumerate 0 adr)
       (loc_set df idx value_name (Num (item arr adr))))"

text \<open>
  Lines 324 to 351 of \<^verbatim>\<open>utils.py\<close>: defaults, group normalization, the empty frame
  and its population.
\<close>

definition melt ::
  "'a ndarray \<Rightarrow> names option \<Rightarrow> groups option \<Rightarrow> string \<Rightarrow> error + 'a DataFrame" where
  "melt arr dim_names grps value_name =
     (let n_dim = ndim arr;
          shp = shape arr;
          letters = dim_letters n_dim;
          dim_names' = (case dim_names of None \<Rightarrow> default_dim_names letters | Some d \<Rightarrow> d)
      in case (case grps of None \<Rightarrow> default_groups letters shp
                          | Some g \<Rightarrow> check_groups shp g) of
           Inl e \<Rightarrow> Inl e
         | Inr grps' \<Rightarrow>
            (case comprehension (\<lambda>i. names_getitem dim_names' (int i)) (range_py n_dim) of
               Inl e \<Rightarrow> Inl e
             | Inr ns \<Rightarrow>
                for_loop (fill_row arr dim_names' grps' value_name)
                  (enumerate 0 (product_py (map range_py shp)))
                  (new_DataFrame (value_name # ns) (size_of arr))))"

text \<open>
  Lines 353 to 359, the column dtype inference:
  \<^verbatim>\<open>try: df = df.infer_objects()
  except: df = df.convert_objects(convert_numeric=True)\<close>
  The bare \<open>except\<close> catches every exception of the first call; one of the second
  call propagates.
\<close>

definition dtype_inference :: "'a pandas \<Rightarrow> 'a DataFrame \<Rightarrow> error + 'a DataFrame" where
  "dtype_inference pd df =
     (case infer_objects pd df of
        Inr df' \<Rightarrow> Inr df'
      | Inl e \<Rightarrow> convert_objects pd df)"

definition array2df ::
  "'a pandas \<Rightarrow> 'a ndarray \<Rightarrow> names option \<Rightarrow> groups option \<Rightarrow> string
     \<Rightarrow> error + 'a DataFrame" where
  "array2df pd arr dim_names grps value_name =
     (case melt arr dim_names grps value_name of
        Inl e \<Rightarrow> Inl e
      | Inr df \<Rightarrow> dtype_inference pd df)"

section \<open>The same code over an object store\<close>

text \<open>
  For the question of what \<open>array2df\<close> mutates, the Python objects live in a store: a
  list of objects, an address being a position in it. The caller's array, \<open>dim_names\<close>,
  \<open>groups\<close> container and per-dimension groups are objects of the store and are passed
  by address; a container holds the addresses of its groups. Creating an object
  (\<open>dict()\<close>, \<open>set()\<close>, a comprehension, \<open>pd.DataFrame(...)\<close>, the frame a pandas method
  returns) appends it; the three mutating statements of the source,
  \<open>new_dct[val] = k\<close>, \<open>vals_set.add(val)\<close> and \<open>df.loc[idx, name] = v\<close>, overwrite the
  object at the address they are applied to. Every function returns the store it leaves
  behind, also when it raises.
\<close>

type_synonym addr = nat

datatype 'a obj =
    ArrayObj "'a ndarray"
  | NamesObj names
  | GroupObj group
  | GroupsDictObj "(int \<times> addr) list"
  | GroupsListObj "addr list"
  | SetObj "int set"
  | FrameObj "'a DataFrame"

type_synonym 'a store = "'a obj list"

text \<open>Reading an address (\<open>None\<close> when nothing is there) and creating an object.\<close>

definition deref :: "'a store \<Rightarrow> addr \<Rightarrow> 'a obj option" where
  "deref h a = (if a < length h then Some (h ! a) else None)"

definition alloc :: "'a obj \<Rightarrow> 'a store \<Rightarrow> addr \<times> 'a store" where
  "alloc ob h = (length h, h @ [ob])"

text \<open>The mutating statements.\<close>

definition dict_setitem_at :: "addr \<Rightarrow> int \<Rightarrow> string \<Rightarrow> 'a store \<Rightarrow> 'a store" where
  "dict_setitem_at a p label h =
     (case deref h a of
        Some (GroupObj (Dict es)) \<Rightarrow> h[a := GroupObj (Dict (setitem es p label))]
      | _ \<Rightarrow> h)"

definition set_add_at :: "addr \<Rightarrow> int \<Rightarrow> 'a store \<Rightarrow> 'a store" where
  "set_add_at a v h =
     (case deref h a of
        Some (SetObj s) \<Rightarrow> h[a := SetObj (insert v s)]
      | _ \<Rightarrow> h)"

definition set_len_at :: "'a store \<Rightarrow> addr \<Rightarrow> nat" where
  "set_len_at h a = (case deref h a of Some (SetObj s) \<Rightarrow> card s | _ \<Rightarrow> 0)"

definition loc_set_at :: "addr \<Rightarrow> nat \<Rightarrow> string \<Rightarrow> 'a cell \<Rightarrow> 'a store \<Rightarrow> 'a store" where
  "loc_set_at a idx name v h =
     (case deref h a of
        Some (FrameObj df) \<Rightarrow> h[a := FrameObj (loc_set df idx name v)]
      | _ \<Rightarrow> h)"

text \<open>
  A comprehension and a \<open>for\<close> loop whose bodies work on the store; the store reached
  when an exception ends them is kept.
\<close>

fun comprehension_st ::
  "('x \<Rightarrow> 'a store \<Rightarrow> 'a store \<times> (error + 'y)) \<Rightarrow> 'x list \<Rightarrow> 'a store
     \<Rightarrow> 'a store \<times> (error + 'y list)" where
  "comprehension_st f [] h = (h, Inr [])"
| "comprehension_st f (x # xs) h =
     (case f x h of
        (h1, Inl e) \<Rightarrow> (h1, Inl e)
      | (h1, Inr y) \<Rightarrow>
         (case comprehension_st f xs h1 of
            (h2, Inl e) \<Rightarrow> (h2, Inl e)
          | (h2, Inr ys) \<Rightarrow> (h2, Inr (y # ys))))"

fun for_loop_st ::
  "('x \<Rightarrow> 'a store \<Rightarrow> 'a store \<times> error option) \<Rightarrow> 'x list \<Rightarrow> 'a store
     \<Rightarrow> 'a store \<times> error option" where
  "for_loop_st body [] h = (h, None)"
| "for_loop_st body (x # xs) h =
     (case body x h of
        (h1, Some e) \<Rightarrow> (h1, Some e)
      | (h1, None) \<Rightarrow> for_loop_st body xs h1)"

text \<open>\<open>_check_dict\<close>, taking the address of \<open>dct\<close> and returning the address of \<open>new_dct\<close>.\<close>

definition assign_positions_st ::
  "addr \<Rightarrow> addr \<Rightarrow> int list \<Rightarrow> string \<Rightarrow> 'a store \<Rightarrow> 'a store" where
  "assign_positions_st new_dct vals_set positions label h =
     fold (\<lambda>val h. set_add_at vals_set val (dict_setitem_at new_dct val label h)) positions h"

fun str_keys_step_st :: "addr \<Rightarrow> addr \<Rightarrow> entry \<Rightarrow> 'a store \<Rightarrow> 'a store" where
  "str_keys_step_st new_dct vals_set (ByLabel k vals) h =
     assign_positions_st new_dct vals_set vals k h"
| "str_keys_step_st new_dct vals_set _ h = h"

fun tuple_keys_step_st :: "addr \<Rightarrow> addr \<Rightarrow> entry \<Rightarrow> 'a store \<Rightarrow> 'a store" where
  "tuple_keys_step_st new_dct i_set (ByTuple k val) h =
     assign_positions_st new_dct i_set k val h"
| "tuple_keys_step_st new_dct i_set _ h = h"

definition check_dict_st :: "addr \<Rightarrow> nat \<Rightarrow> 'a store \<Rightarrow> 'a store \<times> (error + addr)" where
  "check_dict_st dct_ref dim_len h =
     (case deref h dct_ref of
        Some (GroupObj (Dict dct)) \<Rightarrow>
          if list_all is_str_key dct then
            (case alloc (SetObj {}) h of (vals_set, h1) \<Rightarrow>
             case alloc (GroupObj (Dict [])) h1 of (new_dct, h2) \<Rightarrow>
             let h3 = fold (str_keys_step_st new_dct vals_set) dct h2
             in if set_len_at h3 vals_set = dim_len then (h3, Inr new_dct)
                else (h3, Inl AssertionError))
          else if list_all is_tuple_key dct then
            (case alloc (GroupObj (Dict [])) h of (new_dct, h1) \<Rightarrow>
             case alloc (SetObj {}) h1 of (i_set, h2) \<Rightarrow>
             let h3 = fold (tuple_keys_step_st new_dct i_set) dct h2
             in if set_len_at h3 i_set = dim_len then (h3, Inr new_dct)
                else (h3, Inl AssertionError))
          else (h, Inr dct_ref)
      | Some (GroupObj (Seq dct)) \<Rightarrow>
          if length dct = dim_len then (h, Inr dct_ref) else (h, Inl AssertionError)
      | _ \<Rightarrow> (h, Inl TypeError))"

text \<open>\<open>_check_dict(groups[dim], shape[dim])\<close> for one entry, and the two branches of lines 335 to 340.\<close>

definition check_entry_st ::
  "nat list \<Rightarrow> int \<Rightarrow> addr \<Rightarrow> 'a store \<Rightarrow> 'a store \<times> (error + addr)" where
  "check_entry_st shp dim g h =
     (case list_getitem shp dim of
        Inl e \<Rightarrow> (h, Inl e)
      | Inr n \<Rightarrow> check_dict_st g n h)"

definition check_groups_st :: "nat list \<Rightarrow> addr \<Rightarrow> 'a store \<Rightarrow> 'a store \<times> (error + addr)" where
  "check_groups_st shp groups_ref h =
     (case deref h groups_ref of
        Some (GroupsDictObj gs) \<Rightarrow>
          (case comprehension_st
                  (\<lambda>(dim, g) h. case check_entry_st shp dim g h of
                                   (h', Inl e) \<Rightarrow> (h', Inl e)
                                 | (h', Inr g') \<Rightarrow> (h', Inr (dim, g')))
                  gs h of
             (h', Inl e) \<Rightarrow> (h', Inl e)
           | (h', Inr d) \<Rightarrow> (case alloc (GroupsDictObj d) h' of (a, h'') \<Rightarrow> (h'', Inr a)))
      | Some (GroupsListObj gl) \<Rightarrow>
          (case comprehension_st
                  (\<lambda>dim h. case list_getitem gl (int dim) of
                              Inl e \<Rightarrow> (h, Inl e)
                            | Inr g \<Rightarrow> check_entry_st shp (int dim) g h)
                  (range_py (length gl)) h of
             (h', Inl e) \<Rightarrow> (h', Inl e)
           | (h', Inr l) \<Rightarrow> (case alloc (GroupsListObj l) h' of (a, h'') \<Rightarrow> (h'', Inr a)))
      | _ \<Rightarrow> (h, Inr groups_ref))"

text \<open>The default groups of line 332: each inner dict and the outer dict are new objects.\<close>

definition default_groups_st ::
  "string list \<Rightarrow> nat list \<Rightarrow> 'a store \<Rightarrow> 'a store \<times> (error + addr)" where
  "default_groups_st letters shp h =
     (case comprehension_st
             (\<lambda>dim h. case default_group letters dim (shp ! dim) of
                         Inl e \<Rightarrow> (h, Inl e)
                       | Inr g \<Rightarrow> (case alloc (GroupObj g) h of
                                    (a, h') \<Rightarrow> (h', Inr (int dim, a))))
             (range_py (length shp)) h of
        (h', Inl e) \<Rightarrow> (h', Inl e)
      | (h', Inr d) \<Rightarrow> (case alloc (GroupsDictObj d) h' of (a, h'') \<Rightarrow> (h'', Inr a)))"

text \<open>The lookups \<open>dim_names[i]\<close> and \<open>groups[dim_idx][dim_adr]\<close> through the store.\<close>

definition names_getitem_at :: "'a store \<Rightarrow> addr \<Rightarrow> int \<Rightarrow> error + string" where
  "names_getitem_at h a i =
     (case deref h a of Some (NamesObj dn) \<Rightarrow> names_getitem dn i | _ \<Rightarrow> Inl TypeError)"

definition group_getitem_at :: "'a store \<Rightarrow> addr \<Rightarrow> int \<Rightarrow> error + string" where
  "group_getitem_at h a p =
     (case deref h a of Some (GroupObj g) \<Rightarrow> group_getitem g p | _ \<Rightarrow> Inl TypeError)"

definition group_label_at :: "'a store \<Rightarrow> addr \<Rightarrow> int \<Rightarrow> int \<Rightarrow> error + string" where
  "group_label_at h a dim_idx dim_adr =
     (case deref h a of
        Some (GroupsDictObj d) \<Rightarrow>
          (case dict_getitem d dim_idx of
             Inl e \<Rightarrow> Inl e
           | Inr g \<Rightarrow> group_getitem_at h g dim_adr)
      | Some (GroupsListObj l) \<Rightarrow>
          (case list_getitem l dim_idx of
             Inl e \<Rightarrow> Inl e
           | Inr g \<Rightarrow> group_getitem_at h g dim_adr)
      | _ \<Rightarrow> Inl TypeError)"

text \<open>The population loops, the dtype inference and \<open>array2df\<close> itself.\<close>

definition set_label_st ::
  "addr \<Rightarrow> addr \<Rightarrow> addr \<Rightarrow> nat \<Rightarrow> nat \<times> nat \<Rightarrow> 'a store \<Rightarrow> 'a store \<times> error option" where
  "set_label_st dim_names grps df idx = (\<lambda>(dim_idx, dim_adr) h.
     case group_label_at h grps (int dim_idx) (int dim_adr) of
       Inl e \<Rightarrow> (h, Some e)
     | Inr label \<Rightarrow>
        (case names_getitem_at h dim_names (int dim_idx) of
           Inl e \<Rightarrow> (h, Some e)
         | Inr name \<Rightarrow> (loc_set_at df idx name (Lab label) h, None)))"

definition fill_row_st ::
  "addr \<Rightarrow> addr \<Rightarrow> addr \<Rightarrow> addr \<Rightarrow> string \<Rightarrow> nat \<times> nat list \<Rightarrow> 'a store
     \<Rightarrow> 'a store \<times> error option" where
  "fill_row_st arr dim_names grps df value_name = (\<lambda>(idx, adr) h.
     case deref h arr of
       Some (ArrayObj a) \<Rightarrow>
         for_loop_st (set_label_st dim_names grps df idx) (enumerate 0 adr)
           (loc_set_at df idx value_name (Num (item a adr)) h)
     | _ \<Rightarrow> (h, Some TypeError))"

definition dtype_inference_st ::
  "'a pandas \<Rightarrow> addr \<Rightarrow> 'a store \<Rightarrow> 'a store \<times> (error + addr)" where
  "dtype_inference_st pd df h =
     (case deref h df of
        Some (FrameObj d) \<Rightarrow>
          (case dtype_inference pd d of
             Inl e \<Rightarrow> (h, Inl e)
           | Inr d' \<Rightarrow> (case alloc (FrameObj d') h of (a, h') \<Rightarrow> (h', Inr a)))
      | _ \<Rightarrow> (h, Inl TypeError))"

definition array2df_st ::
  "'a pandas \<Rightarrow> addr \<Rightarrow> addr option \<Rightarrow> addr option \<Rightarrow> string \<Rightarrow> 'a store
     \<Rightarrow> 'a store \<times> (error + addr)" where
  "array2df_st pd arr dim_names grps value_name h =
     (case deref h arr of
        Some (ArrayObj a) \<Rightarrow>
          (let n_dim = ndim a;
               shp = shape a;
               letters = dim_letters n_dim
           in case (case dim_names of
                      None \<Rightarrow> alloc (NamesObj (default_dim_names letters)) h
                    | Some d \<Rightarrow> (d, h)) of
                (dim_names', h1) \<Rightarrow>
              case (case grps of
                      None \<Rightarrow> default_groups_st letters shp h1
                    | Some g \<Rightarrow> check_groups_st shp g h1) of
                (h2, Inl e) \<Rightarrow> (h2, Inl e)
              | (h2, Inr grps') \<Rightarrow>
                 (case comprehension (\<lambda>i. names_getitem_at h2 dim_names' (int i))
                         (range_py n_dim) of
                    Inl e \<Rightarrow> (h2, Inl e)
                  | Inr ns \<Rightarrow>
                     (case alloc (FrameObj (new_DataFrame (value_name # ns) (size_of a))) h2 of
                        (df, h3) \<Rightarrow>
                          (case for_loop_st (fill_row_st arr dim_names' grps' df value_name)
                                  (enumerate 0 (product_py (map range_py shp))) h3 of
                             (h4, Some e) \<Rightarrow> (h4, Inl e)
                           | (h4, None) \<Rightarrow> dtype_inference_st pd df h4))))
      | _ \<Rightarrow> (h, Inl TypeError))"

text \<open>The frame stored at an address, if one is.\<close>

definition frame_at :: "'a store \<Rightarrow> addr \<Rightarrow> 'a DataFrame option" where
  "frame_at h a = (case deref h a of Some (FrameObj d) \<Rightarrow> Some d | _ \<Rightarrow> None)"

section \<open>Notions of the specification\<close>

text \<open>
  Row-major order, as the specification words it: the \<open>k\<close>-th multi-index of the index
  space of a shape, dimension 0 varying slowest and the last dimension fastest. This is
  the independent description the enumeration of \<open>array2df\<close> is compared with.
\<close>

fun unravel_index :: "nat \<Rightarrow> nat list \<Rightarrow> nat list" where
  "unravel_index k [] = []"
| "unravel_index k (d # ds) = (k div prod_list ds) # unravel_index (k mod prod_list ds) ds"

text \<open>
  The positions an item of a group dict speaks of (the members of its list or tuple, or
  its integer key) and the label it gives them; \<open>positions_of\<close> are the distinct
  positions a whole dict collects.
\<close>

fun entry_positions :: "entry \<Rightarrow> int set" where
  "entry_positions (ByLabel k vals) = set vals"
| "entry_positions (ByTuple k val) = set k"
| "entry_positions (ByPos p l) = {p}"

fun entry_label :: "entry \<Rightarrow> string" where
  "entry_label (ByLabel k vals) = k"
| "entry_label (ByTuple k val) = val"
| "entry_label (ByPos p l) = l"

definition positions_of :: "entry list \<Rightarrow> int set" where
  "positions_of dct = (\<Union>e \<in> set dct. entry_positions e)"

fun is_pos_key :: "entry \<Rightarrow> bool" where
  "is_pos_key (ByPos p l) = True"
| "is_pos_key _ = False"

text \<open>
  A logical position-to-label mapping over a dimension of length \<open>n\<close> is the list of
  its \<open>n\<close> labels. A dict describes it when the positions it speaks of are exactly
  \<open>0..n-1\<close> and every item gives its positions their labels; it encodes it when in
  addition it is in one of the three forms: label-keyed, tuple-keyed or position-keyed.
\<close>

definition describes :: "entry list \<Rightarrow> string list \<Rightarrow> bool" where
  "describes dct labels \<longleftrightarrow>
     positions_of dct = {0..<int (length labels)} \<and>
     (\<forall>e\<in>set dct. \<forall>p\<in>entry_positions e. entry_label e = labels ! nat p)"

fun encodes :: "group \<Rightarrow> string list \<Rightarrow> bool" where
  "encodes (Dict dct) labels \<longleftrightarrow>
     (list_all is_str_key dct \<or> list_all is_tuple_key dct \<or> list_all is_pos_key dct) \<and>
     describes dct labels"
| "encodes (Seq ls) labels \<longleftrightarrow> False"

text \<open>
  The pairs \<open>(dim, groups[dim])\<close> in the order in which the normalization of
  \<open>array2df\<close> visits them: the items of a dict, the positions of a list.
\<close>

fun group_items :: "groups \<Rightarrow> (int \<times> group) list" where
  "group_items (GroupsDict d) = d"
| "group_items (GroupsList l) = zip (map int [0..<length l]) l"

fun is_groups_dict :: "groups \<Rightarrow> bool" where
  "is_groups_dict (GroupsDict d) = True"
| "is_groups_dict (GroupsList l) = False"

text \<open>
  Two \<open>groups\<close> arguments of the same kind that speak of the same dimensions in the same
  order; and a \<open>groups\<close> argument whose every entry, for a dimension the array has,
  encodes that dimension's labels \<open>L dim\<close>, one label per position.
\<close>

definition same_dims :: "groups \<Rightarrow> groups \<Rightarrow> bool" where
  "same_dims gs1 gs2 \<longleftrightarrow>
     is_groups_dict gs1 = is_groups_dict gs2 \<and>
     map fst (group_items gs1) = map fst (group_items gs2)"

definition encodes_all :: "nat list \<Rightarrow> (int \<Rightarrow> string list) \<Rightarrow> groups \<Rightarrow> bool" where
  "encodes_all shp L gs \<longleftrightarrow>
     (\<forall>(dim, g)\<in>set (group_items gs). \<forall>n. list_getitem shp dim = Inr n \<longrightarrow>
        length (L dim) = n \<and> encodes g (L dim))"

text \<open>
  The expression \<open>groups[dim_idx][dim_adr]\<close> of the population loop, and the canonical
  result of the normalizer for a list of labels: a dict with integer keys only that maps
  each position \<open>0..n-1\<close> to its label and has no other key. Two such dicts may differ
  in the order of their items; as Python dicts they are equal.
\<close>

definition group_label :: "groups \<Rightarrow> int \<Rightarrow> int \<Rightarrow> error + string" where
  "group_label grps dim_idx dim_adr =
     (case groups_getitem grps dim_idx of
        Inl e \<Rightarrow> Inl e
      | Inr g \<Rightarrow> group_getitem g dim_adr)"

definition canonical_for :: "string list \<Rightarrow> entry list \<Rightarrow> bool" where
  "canonical_for labels d \<longleftrightarrow>
     list_all is_pos_key d \<and>
     (\<forall>p. dict_get d p =
        (if 0 \<le> p \<and> p < int (length labels) then Some (labels ! nat p) else None))"

text \<open>Groups, and \<open>groups\<close> arguments, that answer every lookup alike.\<close>

definition same_labels :: "group \<Rightarrow> group \<Rightarrow> bool" where
  "same_labels g1 g2 \<longleftrightarrow> (\<forall>p. group_getitem g1 p = group_getitem g2 p)"

definition same_lookups :: "groups \<Rightarrow> groups \<Rightarrow> bool" where
  "same_lookups gs1 gs2 \<longleftrightarrow> (\<forall>dim p. group_label gs1 dim p = group_label gs2 dim p)"

text \<open>
  The \<open>groups\<close> argument names a dimension the array does not have, so that
  \<open>shape[dim]\<close> raises.
\<close>

definition unknown_dim :: "nat list \<Rightarrow> groups \<Rightarrow> bool" where
  "unknown_dim shp gs \<longleftrightarrow>
     (\<exists>(dim, g)\<in>set (group_items gs). list_getitem shp dim = Inl IndexError)"

text \<open>
  What the theorems about the returned frame assume of the installed pandas, which is
  not part of the repository: \<open>keeps_data\<close>, a dtype inference that succeeds returns
  the frame's columns and cells as they were; \<open>dtype_only\<close>, the inference succeeds on
  every frame and changes nothing but the dtypes.
\<close>

definition keeps_data :: "'a pandas \<Rightarrow> bool" where
  "keeps_data pd \<longleftrightarrow>
     (\<forall>df df'. dtype_inference pd df = Inr df' \<longrightarrow>
        columns df' = columns df \<and> rows df' = rows df)"

definition dtype_only :: "'a pandas \<Rightarrow> bool" where
  "dtype_only pd \<longleftrightarrow> (\<forall>df. \<exists>dts. dtype_inference pd df = Inr (df\<lparr>dtypes := dts\<rparr>))"

section \<open>Sample inputs\<close>

text \<open>
  Stand-ins for two generations of pandas, used in the closed examples. In both, the
  inference marks a column numeric when all its cells are array elements. The recent
  one has \<open>infer_objects\<close> and no \<open>convert_objects\<close>; the old one is the opposite.
\<close>

definition numeric_cell :: "'a cell \<Rightarrow> bool" where
  "numeric_cell c = (case c of Num x \<Rightarrow> True | _ \<Rightarrow> False)"

definition soft_infer :: "'a DataFrame \<Rightarrow> 'a DataFrame" where
  "soft_infer df =
     df\<lparr>dtypes :=
          map (\<lambda>j. if list_all (\<lambda>row. numeric_cell (row ! j)) (rows df) then Numeric else Object)
            [0..<length (columns df)]\<rparr>"

definition pandas_recent :: "'a pandas" where
  "pandas_recent =
     \<lparr>infer_objects = (\<lambda>df. Inr (soft_infer df)),
      convert_objects = (\<lambda>df. Inl AttributeError)\<rparr>"

definition pandas_old :: "'a pandas" where
  "pandas_old =
     \<lparr>infer_objects = (\<lambda>df. Inl AttributeError),
      convert_objects = (\<lambda>df. Inr (soft_infer df))\<rparr>"

text \<open>A pandas with neither method.\<close>

definition pandas_without_inference :: "'a pandas" where
  "pandas_without_inference =
     \<lparr>infer_objects = (\<lambda>df. Inl AttributeError),
      convert_objects = (\<lambda>df. Inl AttributeError)\<rparr>"

text \<open>
  \<open>np.arange(n).reshape(shape)\<close>: the element at a multi-index is the index's rank in
  row-major order.
\<close>

definition ravel :: "nat list \<Rightarrow> nat list \<Rightarrow> nat" where
  "ravel shp adr = foldl (\<lambda>acc (d, i). acc * d + i) 0 (zip shp adr)"

definition arange :: "nat list \<Rightarrow> int ndarray" where
  "arange shp = \<lparr>shape = shp, item = (\<lambda>adr. int (ravel shp adr))\<rparr>"

text \<open>The second example of the docstring of \<open>array2df\<close>: its arguments and its table.\<close>

definition example_names :: names where
  "example_names = NamesList [''first'', ''second'']"

definition example_groups :: groups where
  "example_groups =
     GroupsList [Dict [ByLabel ''A'' [0, 2], ByLabel ''B'' [1, 3]],
                 Dict [ByTuple [0, 2] ''abc'', ByTuple [1] ''d'']]"

definition example_rows :: "int cell list list" where
  "example_rows =
     [[Num 0, Lab ''A'', Lab ''abc''], [Num 1, Lab ''A'', Lab ''d''],
      [Num 2, Lab ''A'', Lab ''abc''], [Num 3, Lab ''B'', Lab ''abc''],
      [Num 4, Lab ''B'', Lab ''d''], [Num 5, Lab ''B'', Lab ''abc''],
      [Num 6, Lab ''A'', Lab ''abc''], [Num 7, Lab ''A'', Lab ''d''],
      [Num 8, Lab ''A'', Lab ''abc''], [Num 9, Lab ''B'', Lab ''abc''],
      [Num 10, Lab ''B'', Lab ''d''], [Num 11, Lab ''B'', Lab ''abc'']]"

text \<open>A store with an array, one label-keyed group and a \<open>groups\<close> list holding it.\<close>

definition small_store :: "int store" where
  "small_store =
     [ArrayObj (arange [2]),
      GroupObj (Dict [ByLabel ''a'' [0], ByLabel ''b'' [1]]),
      GroupsListObj [1]]"

section \<open>Invariants of the population\<close>

text \<open>Every row of the frame has one cell per column.\<close>

definition rectangular :: "'a DataFrame \<Rightarrow> bool" where
  "rectangular df \<longleftrightarrow> (\<forall>j<length (rows df). length (rows df ! j) = length (columns df))"

text \<open>
  What the assignments to row \<open>idx\<close> leave alone: the columns, the dtypes, the number
  of rows, every other row, and the frame being rectangular.
\<close>

definition row_update :: "nat \<Rightarrow> 'a DataFrame \<Rightarrow> 'a DataFrame \<Rightarrow> bool" where
  "row_update idx df df' \<longleftrightarrow>
     columns df' = columns df \<and> dtypes df' = dtypes df \<and>
     length (rows df') = length (rows df) \<and>
     (\<forall>j. j \<noteq> idx \<longrightarrow> rows df' ! j = rows df ! j) \<and>
     (rectangular df \<longrightarrow> rectangular df')"

text \<open>
  A store \<open>h'\<close> reached from \<open>h\<close> that is at least as long and holds, below address
  \<open>n\<close>, the objects \<open>h\<close> holds there.
\<close>

definition preserves :: "nat \<Rightarrow> 'a store \<Rightarrow> 'a store \<Rightarrow> bool" where
  "preserves n h h' \<longleftrightarrow> length h \<le> length h' \<and> take n h' = take n h"

section \<open>Basic facts\<close>

lemma range_py_Suc: "range_py (Suc n) = range_py n @ [n]"
  by (simp add: range_py_def)

lemma range_py_0: "range_py 0 = []"
  by (simp add: range_py_def)

lemma dtype_only_array2df:
  assumes "dtype_only pd" and "melt arr dn gs vn = Inr df0"
  shows "\<exists>dts. array2df pd arr dn gs vn = Inr (df0\<lparr>dtypes := dts\<rparr>)"
  using assms by (simp add: array2df_def dtype_only_def)

lemma dtype_only_pandas_recent: "dtype_only pandas_recent"
  unfolding dtype_only_def
proof
  fix df :: "'a DataFrame"
  show "\<exists>dts. dtype_inference pandas_recent df = Inr (df\<lparr>dtypes := dts\<rparr>)"
    by (rule exI [of _ "dtypes (soft_infer df)"])
      (simp add: dtype_inference_def pandas_recent_def soft_infer_def)
qed

lemma dtype_only_pandas_old: "dtype_only pandas_old"
  unfolding dtype_only_def
proof
  fix df :: "'a DataFrame"
  show "\<exists>dts. dtype_inference pandas_old df = Inr (df\<lparr>dtypes := dts\<rparr>)"
    by (rule exI [of _ "dtypes (soft_infer df)"])
      (simp add: dtype_inference_def pandas_old_def soft_infer_def)
qed

lemma dtype_only_keeps_data: "dtype_only pd \<Longrightarrow> keeps_data pd"
proof -
  assume h: "dtype_only pd"
  show "keeps_data pd"
    unfolding keeps_data_def
  proof (intro allI impI)
    fix df df' :: "'a DataFrame"
    assume r: "dtype_inference pd df = Inr df'"
    from h obtain dts where "dtype_inference pd df = Inr (df\<lparr>dtypes := dts\<rparr>)"
      unfolding dtype_only_def by blast
    with r have "df' = df\<lparr>dtypes := dts\<rparr>" by simp
    then show "columns df' = columns df \<and> rows df' = rows df" by simp
  qed
qed

section \<open>Comprehensions, loops and the index space\<close>

lemma comprehension_Inr_iff:
  "comprehension f xs = Inr ys \<longleftrightarrow> list_all2 (\<lambda>x y. f x = Inr y) xs ys"
proof (induction xs arbitrary: ys)
  case Nil
  then show ?case by auto
next
  case (Cons x xs)
  show ?case
  proof (cases "f x")
    case (Inl e)
    then show ?thesis by (auto simp: list_all2_Cons1)
  next
    case (Inr y)
    then show ?thesis
      using Cons.IH by (cases "comprehension f xs") (auto simp: list_all2_Cons1)
  qed
qed

lemma comprehension_Inl:
  "comprehension f xs = Inl e \<Longrightarrow> \<exists>x\<in>set xs. f x = Inl e"
  by (induction xs) (auto split: sum.splits)

lemma comprehension_map:
  "(\<And>x. x \<in> set xs \<Longrightarrow> f x = Inr (g x)) \<Longrightarrow> comprehension f xs = Inr (map g xs)"
  by (induction xs) auto

lemma comprehension_fails:
  "x \<in> set xs \<Longrightarrow> f x = Inl e \<Longrightarrow> \<exists>e'. comprehension f xs = Inl e'"
  by (induction xs) (auto split: sum.splits)

lemma comprehension_length:
  "comprehension f xs = Inr ys \<Longrightarrow> length ys = length xs"
  by (simp add: comprehension_Inr_iff list_all2_lengthD)

lemma comprehension_nth:
  "comprehension f xs = Inr ys \<Longrightarrow> i < length xs \<Longrightarrow> f (xs ! i) = Inr (ys ! i)"
  by (auto simp: comprehension_Inr_iff dest: list_all2_nthD)

lemma length_product_py: "length (product_py xss) = prod_list (map length xss)"
proof (induction xss)
  case Nil
  then show ?case by simp
next
  case (Cons xs xss)
  have "length (concat (map (\<lambda>x. map (Cons x) (product_py xss)) xs)) =
        length xs * length (product_py xss)"
    by (induction xs) simp_all
  with Cons show ?case by simp
qed

lemma product_py_elem_length: "ys \<in> set (product_py xss) \<Longrightarrow> length ys = length xss"
  by (induction xss arbitrary: ys) auto

lemma concat_blocks_nth:
  assumes "\<And>x. length (f x) = m" and "k < d * m"
  shows "concat (map f [0..<d]) ! k = f (k div m) ! (k mod m)"
  using assms(2)
proof (induction d)
  case 0
  then show ?case by simp
next
  case (Suc d)
  have len: "length (concat (map f [0..<d])) = d * m"
    by (induction d) (simp_all add: assms(1))
  show ?case
  proof (cases "k < d * m")
    case True
    with Suc.IH len show ?thesis by (simp add: nth_append)
  next
    case False
    then have ge: "d * m \<le> k" by simp
    from Suc.prems have lt: "k < d * m + m" by simp
    from Suc.prems have "0 < m" by (cases m) auto
    have "k div m = d"
    proof (rule div_nat_eqI)
      show "m * d \<le> k" using ge by (simp add: mult.commute)
      show "k < m * Suc d" using lt by (simp add: mult.commute)
    qed
    moreover have "k mod m = k - d * m"
      using \<open>k div m = d\<close> by (metis minus_div_mult_eq_mod)
    ultimately show ?thesis using False len lt by (simp add: nth_append assms(1))
  qed
qed

lemma product_py_nth:
  "k < prod_list shp \<Longrightarrow> product_py (map range_py shp) ! k = unravel_index k shp"
proof (induction shp arbitrary: k)
  case Nil
  then show ?case by simp
next
  case (Cons d ds)
  let ?P = "product_py (map range_py ds)"
  have m: "length ?P = prod_list ds"
    by (simp add: length_product_py range_py_def comp_def)
  from Cons.prems have pos: "0 < prod_list ds" by (cases "prod_list ds") auto
  have "concat (map (\<lambda>x. map (Cons x) ?P) [0..<d]) ! k =
          map (Cons (k div prod_list ds)) ?P ! (k mod prod_list ds)"
    using Cons.prems by (intro concat_blocks_nth) (simp_all add: m)
  also have "\<dots> = (k div prod_list ds) # ?P ! (k mod prod_list ds)"
    using pos by (simp add: m)
  also have "?P ! (k mod prod_list ds) = unravel_index (k mod prod_list ds) ds"
    using pos by (intro Cons.IH) simp
  finally show ?case by (simp add: range_py_def)
qed

section \<open>One row at a time\<close>

lemma row_update_refl: "row_update idx df df"
  by (simp add: row_update_def)

lemma row_update_trans:
  "row_update idx df df' \<Longrightarrow> row_update idx df' df'' \<Longrightarrow> row_update idx df df''"
  by (simp add: row_update_def)

lemma loc_set_row_update: "row_update idx df (loc_set df idx name v)"
proof -
  have "rectangular (loc_set df idx name v)" if r: "rectangular df"
    unfolding rectangular_def
  proof (intro allI impI)
    fix j assume "j < length (rows (loc_set df idx name v))"
    then have j: "j < length (rows df)" by (simp add: loc_set_def)
    with r have "length (rows df ! j) = length (columns df)" by (simp add: rectangular_def)
    with j show "length (rows (loc_set df idx name v) ! j) = length (columns (loc_set df idx name v))"
      by (cases "j = idx") (simp_all add: loc_set_def)
  qed
  then show ?thesis by (simp add: row_update_def loc_set_def)
qed

lemma loc_set_cell:
  assumes "idx < length (rows df)" and "c < length (columns df)"
    and "length (rows df ! idx) = length (columns df)"
  shows "rows (loc_set df idx name v) ! idx ! c =
           (if columns df ! c = name then v else rows df ! idx ! c)"
  using assms by (simp add: loc_set_def)

lemma for_loop_invariant:
  assumes "for_loop body xs s = Inr s'" and "P s"
    and "\<And>x t t'. x \<in> set xs \<Longrightarrow> P t \<Longrightarrow> body x t = Inr t' \<Longrightarrow> P t'"
  shows "P s'"
  using assms
proof (induction xs arbitrary: s)
  case Nil
  then show ?case by simp
next
  case (Cons x xs)
  from Cons.prems(1) obtain t where t: "body x s = Inr t" and r: "for_loop body xs t = Inr s'"
    by (auto split: sum.splits)
  have "P t" using Cons.prems(3) [of x s t] Cons.prems(2) t by simp
  show ?case
  proof (rule Cons.IH [OF r \<open>P t\<close>])
    fix y u u'
    assume "y \<in> set xs" and "P u" and "body y u = Inr u'"
    then show "P u'" using Cons.prems(3) [of y u u'] by simp
  qed
qed

lemma set_label_Inr:
  assumes "set_label dn gs idx (d, a) df = Inr df'"
  shows "\<exists>name label. names_getitem dn (int d) = Inr name \<and>
            df' = loc_set df idx name (Lab label)"
  using assms by (auto simp: set_label_def split: sum.splits)

lemma inner_loop_row_update:
  assumes "for_loop (set_label dn gs idx) das df = Inr df'"
  shows "row_update idx df df'"
proof (rule for_loop_invariant [OF assms, where P = "row_update idx df"])
  show "row_update idx df df" by (rule row_update_refl)
next
  fix x t t'
  assume "row_update idx df t" and "set_label dn gs idx x t = Inr t'"
  then show "row_update idx df t'"
    by (cases x) (auto dest!: set_label_Inr intro: row_update_trans loc_set_row_update)
qed

lemma inner_loop_keeps_cell:
  assumes "for_loop (set_label dn gs idx) das df = Inr df'"
    and "rectangular df" and "idx < length (rows df)" and "c < length (columns df)"
    and "\<And>d a name. (d, a) \<in> set das \<Longrightarrow> names_getitem dn (int d) = Inr name
           \<Longrightarrow> name \<noteq> columns df ! c"
  shows "rows df' ! idx ! c = rows df ! idx ! c"
proof -
  let ?P = "\<lambda>t. row_update idx df t \<and> rectangular t \<and> rows t ! idx ! c = rows df ! idx ! c"
  have "?P df'"
  proof (rule for_loop_invariant [OF assms(1), where P = ?P])
    show "?P df" using assms(2) by (simp add: row_update_refl)
  next
    fix x t t'
    assume x: "x \<in> set das" and t: "?P t" and s: "set_label dn gs idx x t = Inr t'"
    obtain d a where xd: "x = (d, a)" by (cases x)
    from s obtain name label where n: "names_getitem dn (int d) = Inr name"
      and t': "t' = loc_set t idx name (Lab label)"
      unfolding xd by (blast dest: set_label_Inr)
    from assms(5) x n have ne: "name \<noteq> columns df ! c" unfolding xd by blast
    from t have ct: "columns t = columns df" and lt: "length (rows t) = length (rows df)"
      by (simp_all add: row_update_def)
    from t have "rectangular t" by simp
    then have rl: "length (rows t ! idx) = length (columns t)"
      using assms(3) lt by (simp add: rectangular_def)
    have "rows t' ! idx ! c = rows t ! idx ! c"
      unfolding t' using loc_set_cell [of idx t c name "Lab label"] assms(3,4) lt ct rl ne
      by auto
    moreover have "row_update idx t t'" unfolding t' by (rule loc_set_row_update)
    ultimately show "?P t'" using t by (auto intro: row_update_trans simp: row_update_def)
  qed
  then show ?thesis by simp
qed

lemma fill_row_row_update:
  assumes "fill_row arr dn gs vn (idx, adr) df = Inr df'"
  shows "row_update idx df df'"
proof -
  from assms have "for_loop (set_label dn gs idx) (enumerate 0 adr)
       (loc_set df idx vn (Num (item arr adr))) = Inr df'"
    by (simp add: fill_row_def)
  from inner_loop_row_update [OF this] loc_set_row_update [of idx df vn "Num (item arr adr)"]
  show ?thesis by (rule row_update_trans [rotated])
qed

lemma fill_row_value:
  assumes "fill_row arr dn gs vn (idx, adr) df = Inr df'"
    and "rectangular df" and "idx < length (rows df)"
    and "columns df = vn # ns"
    and "\<And>d name. d < length adr \<Longrightarrow> names_getitem dn (int d) = Inr name \<Longrightarrow> name \<noteq> vn"
  shows "rows df' ! idx ! 0 = Num (item arr adr)"
proof -
  let ?df1 = "loc_set df idx vn (Num (item arr adr))"
  from assms(1) have l: "for_loop (set_label dn gs idx) (enumerate 0 adr) ?df1 = Inr df'"
    by (simp add: fill_row_def)
  have ru: "row_update idx df ?df1" by (rule loc_set_row_update)
  then have r1: "rectangular ?df1" and c1: "columns ?df1 = vn # ns"
    and l1: "idx < length (rows ?df1)"
    using assms(2,3,4) by (simp_all add: row_update_def)
  have "rows df' ! idx ! 0 = rows ?df1 ! idx ! 0"
  proof (rule inner_loop_keeps_cell [OF l r1 l1])
    show "0 < length (columns ?df1)" by (simp add: c1)
  next
    fix d a name
    assume "(d, a) \<in> set (enumerate 0 adr)" and "names_getitem dn (int d) = Inr name"
    then show "name \<noteq> columns ?df1 ! 0"
      using assms(5) [of d name] by (simp add: c1 in_set_enumerate_eq)
  qed
  also have "\<dots> = Num (item arr adr)"
    using loc_set_cell [of idx df 0 vn "Num (item arr adr)"] assms(2,3,4)
    by (simp add: rectangular_def)
  finally show ?thesis .
qed

lemma outer_loop:
  assumes "for_loop (fill_row arr dn gs vn) (enumerate i adrs) df = Inr df'"
    and "rectangular df" and "i + length adrs \<le> length (rows df)"
    and "columns df = vn # ns"
  shows "columns df' = columns df \<and> dtypes df' = dtypes df \<and>
         length (rows df') = length (rows df) \<and> rectangular df' \<and>
         (\<forall>j<i. rows df' ! j = rows df ! j) \<and>
         ((\<forall>adr\<in>set adrs. \<forall>d<length adr. \<forall>name.
              names_getitem dn (int d) = Inr name \<longrightarrow> name \<noteq> vn) \<longrightarrow>
          (\<forall>k<length adrs. rows df' ! (i + k) ! 0 = Num (item arr (adrs ! k))))"
  using assms
proof (induction adrs arbitrary: i df)
  case Nil
  then show ?case by simp
next
  case (Cons adr adrs)
  from Cons.prems(1) obtain df1 where f: "fill_row arr dn gs vn (i, adr) df = Inr df1"
    and r: "for_loop (fill_row arr dn gs vn) (enumerate (Suc i) adrs) df1 = Inr df'"
    by (auto split: sum.splits)
  from fill_row_row_update [OF f] have ru: "row_update i df df1" .
  then have c1: "columns df1 = vn # ns" and r1: "rectangular df1"
    and l1: "length (rows df1) = length (rows df)" and d1: "dtypes df1 = dtypes df"
    and o1: "\<And>j. j \<noteq> i \<Longrightarrow> rows df1 ! j = rows df ! j"
    using Cons.prems(2,4) by (simp_all add: row_update_def)
  from Cons.prems(3) l1 have b1: "Suc i + length adrs \<le> length (rows df1)" by simp
  note IH = Cons.IH [OF r r1 b1 c1]
  have other: "\<forall>j<i. rows df' ! j = rows df ! j"
    using IH o1 by simp
  have val: "\<forall>k<length (adr # adrs). rows df' ! (i + k) ! 0 = Num (item arr ((adr # adrs) ! k))"
    if h: "\<forall>a\<in>set (adr # adrs). \<forall>d<length a. \<forall>name.
              names_getitem dn (int d) = Inr name \<longrightarrow> name \<noteq> vn"
  proof (intro allI impI)
    fix k assume k: "k < length (adr # adrs)"
    show "rows df' ! (i + k) ! 0 = Num (item arr ((adr # adrs) ! k))"
    proof (cases k)
      case 0
      have "rows df1 ! i ! 0 = Num (item arr adr)"
        using fill_row_value [OF f Cons.prems(2) _ Cons.prems(4)] Cons.prems(3) h by simp
      moreover have "rows df' ! i = rows df1 ! i" using IH by simp
      ultimately show ?thesis using 0 by simp
    next
      case (Suc k')
      with k h IH show ?thesis by simp
    qed
  qed
  from IH c1 d1 l1 Cons.prems(4) other val show ?case by simp
qed

section \<open>The docstring examples\<close>

lemma melt_2x2_default:
  assumes "shape A = [2, 2]"
  shows "melt A None None ''value'' =
     Inr \<lparr>columns = [''value'', ''dim_i'', ''dim_j''],
          rows = [[Num (item A [0, 0]), Lab ''i0'', Lab ''j0''],
                  [Num (item A [0, 1]), Lab ''i0'', Lab ''j1''],
                  [Num (item A [1, 0]), Lab ''i1'', Lab ''j0''],
                  [Num (item A [1, 1]), Lab ''i1'', Lab ''j1'']],
          dtypes = [Object, Object, Object]\<rparr>"
  unfolding melt_def ndim_def size_of_def assms
  by (simp add: dim_letters_def default_dim_names_def default_groups_def default_group_def
        range_py_Suc range_py_0 numeral_2_eq_2 list_getitem_def dict_getitem_def
        str_py.simps digit_def new_DataFrame_def fill_row_def set_label_def loc_set_def
        enumerate_eq_zip)

lemma str_py_0_1: "str_py 0 = ''0''" "str_py (Suc 0) = ''1''"
  by (simp_all add: str_py.simps digit_def)

text \<open>
  Claim C4. For every array of shape \<open>(2, 2)\<close>, \<open>array2df\<close> with default arguments
  returns a frame of exactly 4 rows with the columns \<open>value\<close>, \<open>dim_i\<close>, \<open>dim_j\<close>; row
  \<open>k\<close> holds \<open>A[k // 2, k % 2]\<close>, \<open>"i" + str(k // 2)\<close> and \<open>"j" + str(k % 2)\<close>. The
  pandas in use is any whose dtype inference succeeds and changes only dtypes.
\<close>

theorem array2df_2x2_default:
  assumes "shape A = [2, 2]" and "dtype_only pd"
  shows "\<exists>df. array2df pd A None None ''value'' = Inr df \<and>
           columns df = [''value'', ''dim_i'', ''dim_j''] \<and>
           length (rows df) = 4 \<and>
           (\<forall>k<4. rows df ! k =
              [Num (item A [k div 2, k mod 2]),
               Lab (''i'' @ str_py (k div 2)),
               Lab (''j'' @ str_py (k mod 2))])"
proof -
  from dtype_only_array2df [OF assms(2) melt_2x2_default [OF assms(1)]]
  obtain df where df: "array2df pd A None None ''value'' = Inr df"
    and c: "columns df = [''value'', ''dim_i'', ''dim_j'']"
    and r: "rows df = [[Num (item A [0, 0]), Lab ''i0'', Lab ''j0''],
                  [Num (item A [0, 1]), Lab ''i0'', Lab ''j1''],
                  [Num (item A [1, 0]), Lab ''i1'', Lab ''j0''],
                  [Num (item A [1, 1]), Lab ''i1'', Lab ''j1'']]"
    by force
  have "rows df ! k =
              [Num (item A [k div 2, k mod 2]),
               Lab (''i'' @ str_py (k div 2)),
               Lab (''j'' @ str_py (k mod 2))]" if "k < 4" for k
  proof -
    from that have "k = 0 \<or> k = 1 \<or> k = 2 \<or> k = 3" by arith
    then show ?thesis
      by (elim disjE) (simp_all add: r str_py_0_1)
  qed
  with df c r show ?thesis by simp
qed

theorem array2df_2x2_default_witness:
  "shape (arange [2, 2]) = [2, 2] \<and> dtype_only (pandas_recent :: int pandas) \<and>
   (\<exists>df. array2df pandas_recent (arange [2, 2]) None None ''value'' = Inr df \<and>
      length (rows df) = 4 \<and>
      rows df ! 3 = [Num 3, Lab ''i1'', Lab ''j1''])"
proof -
  have s: "shape (arange [2, 2]) = [2, 2]" by (simp add: arange_def)
  have p: "dtype_only (pandas_recent :: int pandas)" by (rule dtype_only_pandas_recent)
  from array2df_2x2_default [OF s p]
  obtain df where df: "array2df pandas_recent (arange [2, 2]) None None ''value'' = Inr df"
    and l: "length (rows df) = 4"
    and r: "\<forall>k<4. rows df ! k =
              [Num (item (arange [2, 2]) [k div 2, k mod 2]),
               Lab (''i'' @ str_py (k div 2)),
               Lab (''j'' @ str_py (k mod 2))]"
    by blast
  from r have "rows df ! 3 = [Num (item (arange [2, 2]) [3 div 2, 3 mod 2]),
               Lab (''i'' @ str_py (3 div 2)),
               Lab (''j'' @ str_py (3 mod 2))]" by simp
  then have "rows df ! 3 = [Num 3, Lab ''i1'', Lab ''j1'']"
    by (simp add: arange_def ravel_def str_py_0_1)
  with s p df l show ?thesis by blast
qed

lemma melt_docstring_example:
  "melt (arange [4, 3]) (Some example_names) (Some example_groups) ''array_value'' =
     Inr \<lparr>columns = [''array_value'', ''first'', ''second''],
          rows = example_rows,
          dtypes = [Object, Object, Object]\<rparr>"
  by code_simp

text \<open>
  Claim C2, as amended. The docstring's second example, \<open>arange(12).reshape(4, 3)\<close>
  with \<open>dim_names=['first', 'second']\<close>, \<open>value_name='array_value'\<close> and the groups
  \<open>[{'A': [0, 2], 'B': [1, 3]}, {(0, 2): 'abc', (1,): 'd'}]\<close>, gives the docstring's
  table: row 0 is \<open>(0, A, abc)\<close> and row 4 is \<open>(4, B, d)\<close>.
\<close>

theorem array2df_docstring_example:
  assumes "dtype_only pd"
  shows "\<exists>df. array2df pd (arange [4, 3]) (Some example_names) (Some example_groups)
                ''array_value'' = Inr df \<and>
           columns df = [''array_value'', ''first'', ''second''] \<and>
           rows df = example_rows \<and>
           rows df ! 0 = [Num 0, Lab ''A'', Lab ''abc''] \<and>
           rows df ! 4 = [Num 4, Lab ''B'', Lab ''d'']"
proof -
  from dtype_only_array2df [OF assms melt_docstring_example]
  obtain df where "array2df pd (arange [4, 3]) (Some example_names) (Some example_groups)
                ''array_value'' = Inr df"
    and "columns df = [''array_value'', ''first'', ''second'']"
    and "rows df = example_rows"
    by force
  moreover have "example_rows ! 0 = [Num 0, Lab ''A'', Lab ''abc'']"
    and "example_rows ! 4 = [Num 4, Lab ''B'', Lab ''d'']"
    by (simp_all add: example_rows_def)
  ultimately show ?thesis by simp
qed

theorem array2df_docstring_example_witness:
  "dtype_only (pandas_old :: int pandas) \<and>
   (\<exists>df. array2df pandas_old (arange [4, 3]) (Some example_names) (Some example_groups)
                ''array_value'' = Inr df \<and>
         rows df ! 4 = [Num 4, Lab ''B'', Lab ''d''])"
  using array2df_docstring_example [OF dtype_only_pandas_old] dtype_only_pandas_old
  by blast

text \<open>
  Claim C2 as stated has row 4 equal to \<open>(4, B, abc)\<close>. The code, like its docstring,
  gives \<open>(4, B, d)\<close>: position 1 of the second dimension is in the tuple \<open>(1,)\<close>.
\<close>

theorem array2df_docstring_row4_counterexample:
  "array2df pandas_recent (arange [4, 3]) (Some example_names) (Some example_groups)
      ''array_value'' =
     Inr \<lparr>columns = [''array_value'', ''first'', ''second''],
          rows = example_rows,
          dtypes = [Numeric, Object, Object]\<rparr> \<and>
   example_rows ! 4 \<noteq> [Num 4, Lab ''B'', Lab ''abc'']"
proof -
  have "example_rows ! 4 \<noteq> [Num 4, Lab ''B'', Lab ''abc'']"
    by (simp add: example_rows_def)
  moreover have "array2df pandas_recent (arange [4, 3]) (Some example_names)
      (Some example_groups) ''array_value'' =
     Inr \<lparr>columns = [''array_value'', ''first'', ''second''],
          rows = example_rows,
          dtypes = [Numeric, Object, Object]\<rparr>"
    by code_simp
  ultimately show ?thesis by simp
qed

section \<open>Dicts that \<open>_check_dict\<close> does not validate\<close>

text \<open>
  Claim C10. A dict whose keys are neither all strings nor all tuples, an
  integer-keyed one in particular, is returned as it is for every \<open>dim_len\<close>: no count,
  range or duplicate check is made on it.
\<close>

theorem check_dict_mixed_keys_unchanged:
  assumes "\<not> list_all is_str_key dct" and "\<not> list_all is_tuple_key dct"
  shows "check_dict (Dict dct) dim_len = Inr (Dict dct)"
  using assms by simp

theorem check_dict_mixed_keys_unchanged_witness:
  "\<not> list_all is_str_key [ByPos 0 ''a'', ByPos 1 ''b'', ByPos 7 ''c''] \<and>
   \<not> list_all is_tuple_key [ByPos 0 ''a'', ByPos 1 ''b'', ByPos 7 ''c''] \<and>
   check_dict (Dict [ByPos 0 ''a'', ByPos 1 ''b'', ByPos 7 ''c'']) 2 =
     Inr (Dict [ByPos 0 ''a'', ByPos 1 ''b'', ByPos 7 ''c''])"
proof -
  have a: "\<not> list_all is_str_key [ByPos 0 ''a'', ByPos 1 ''b'', ByPos 7 ''c'']" by simp
  have b: "\<not> list_all is_tuple_key [ByPos 0 ''a'', ByPos 1 ''b'', ByPos 7 ''c'']" by simp
  from check_dict_mixed_keys_unchanged [OF a b, of 2] a b show ?thesis by blast
qed

section \<open>The dtype inference step\<close>

text \<open>
  Claim C8, as amended. Once the population has succeeded with a frame \<open>df0\<close>: what
  \<open>infer_objects\<close> returns is the result; if it raises, whatever the exception, the
  exception is caught and the result is that of \<open>convert_objects(convert_numeric=True)\<close>
  on \<open>df0\<close>, its frame or its exception; so \<open>array2df\<close> fails exactly when both calls do.
\<close>

theorem array2df_inference_fallback:
  assumes "melt arr dn gs vn = Inr df0"
  shows "(\<forall>df. infer_objects pd df0 = Inr df \<longrightarrow> array2df pd arr dn gs vn = Inr df) \<and>
         (\<forall>e. infer_objects pd df0 = Inl e \<longrightarrow>
              array2df pd arr dn gs vn = convert_objects pd df0) \<and>
         (\<forall>e. array2df pd arr dn gs vn = Inl e \<longleftrightarrow>
              (\<exists>e'. infer_objects pd df0 = Inl e') \<and> convert_objects pd df0 = Inl e)"
  using assms by (auto simp: array2df_def dtype_inference_def split: sum.splits)

theorem array2df_inference_fallback_witness:
  "melt (arange [2, 2]) None None ''value'' =
     Inr \<lparr>columns = [''value'', ''dim_i'', ''dim_j''],
          rows = [[Num 0, Lab ''i0'', Lab ''j0''], [Num 1, Lab ''i0'', Lab ''j1''],
                  [Num 2, Lab ''i1'', Lab ''j0''], [Num 3, Lab ''i1'', Lab ''j1'']],
          dtypes = [Object, Object, Object]\<rparr> \<and>
   array2df pandas_recent (arange [2, 2]) None None ''value'' =
     Inr \<lparr>columns = [''value'', ''dim_i'', ''dim_j''],
          rows = [[Num 0, Lab ''i0'', Lab ''j0''], [Num 1, Lab ''i0'', Lab ''j1''],
                  [Num 2, Lab ''i1'', Lab ''j0''], [Num 3, Lab ''i1'', Lab ''j1'']],
          dtypes = [Numeric, Object, Object]\<rparr>"
proof -
  let ?df0 = "\<lparr>columns = [''value'', ''dim_i'', ''dim_j''],
          rows = [[Num 0, Lab ''i0'', Lab ''j0''], [Num 1, Lab ''i0'', Lab ''j1''],
                  [Num 2, Lab ''i1'', Lab ''j0''], [Num 3, Lab ''i1'', Lab ''j1'']],
          dtypes = [Object, Object, Object]\<rparr> :: int DataFrame"
  have m: "melt (arange [2, 2]) None None ''value'' = Inr ?df0"
    by code_simp
  have i: "infer_objects pandas_recent ?df0 = Inr (?df0\<lparr>dtypes := [Numeric, Object, Object]\<rparr>)"
    by code_simp
  from array2df_inference_fallback [OF m, of pandas_recent] i
  have "array2df pandas_recent (arange [2, 2]) None None ''value'' =
          Inr (?df0\<lparr>dtypes := [Numeric, Object, Object]\<rparr>)"
    by blast
  with m show ?thesis by simp
qed

text \<open>
  Claim C8 as stated fails twice. On a pandas without \<open>infer_objects\<close> the frame comes
  back with the column types \<open>convert_objects\<close> coerced, not with uninferred ones; and
  on a pandas where both calls raise, \<open>array2df\<close> raises after a successful population.
\<close>

theorem array2df_inference_counterexample:
  "infer_objects pandas_old
     (\<lparr>columns = [''value'', ''dim_i'', ''dim_j''],
       rows = [[Num 0, Lab ''i0'', Lab ''j0''], [Num 1, Lab ''i0'', Lab ''j1''],
               [Num 2, Lab ''i1'', Lab ''j0''], [Num 3, Lab ''i1'', Lab ''j1'']],
       dtypes = [Object, Object, Object]\<rparr> :: int DataFrame) = Inl AttributeError \<and>
   array2df pandas_old (arange [2, 2]) None None ''value'' =
     Inr \<lparr>columns = [''value'', ''dim_i'', ''dim_j''],
          rows = [[Num 0, Lab ''i0'', Lab ''j0''], [Num 1, Lab ''i0'', Lab ''j1''],
                  [Num 2, Lab ''i1'', Lab ''j0''], [Num 3, Lab ''i1'', Lab ''j1'']],
          dtypes = [Numeric, Object, Object]\<rparr> \<and>
   array2df pandas_without_inference (arange [2, 2]) None None ''value'' =
     Inl AttributeError"
  by code_simp

section \<open>Rows, columns and the value column\<close>

lemma melt_Inr:
  assumes "melt arr dn gs vn = Inr df"
  obtains dn' gs' ns where
    "comprehension (\<lambda>i. names_getitem dn' (int i)) (range_py (ndim arr)) = Inr ns"
    "for_loop (fill_row arr dn' gs' vn)
       (enumerate 0 (product_py (map range_py (shape arr))))
       (new_DataFrame (vn # ns) (size_of arr)) = Inr df"
  using assms unfolding melt_def Let_def
  by (auto split: sum.splits)

lemma new_DataFrame_rectangular: "rectangular (new_DataFrame cols n)"
  by (simp add: rectangular_def new_DataFrame_def)

lemma melt_shape_and_values:
  assumes "melt arr dn gs vn = Inr df"
  shows "length (rows df) = prod_list (shape arr) \<and>
         (\<exists>ns. columns df = vn # ns \<and> length ns = ndim arr) \<and>
         rectangular df \<and>
         (vn \<notin> set (tl (columns df)) \<longrightarrow>
            (\<forall>k<prod_list (shape arr).
               rows df ! k ! 0 = Num (item arr (unravel_index k (shape arr)))))"
proof -
  from assms obtain dn' gs' ns where
    c: "comprehension (\<lambda>i. names_getitem dn' (int i)) (range_py (ndim arr)) = Inr ns"
    and l: "for_loop (fill_row arr dn' gs' vn)
       (enumerate 0 (product_py (map range_py (shape arr))))
       (new_DataFrame (vn # ns) (size_of arr)) = Inr df"
    by (rule melt_Inr)
  let ?adrs = "product_py (map range_py (shape arr))"
  let ?df0 = "new_DataFrame (vn # ns) (size_of arr) :: 'a DataFrame"
  have la: "length ?adrs = prod_list (shape arr)"
    by (simp add: length_product_py range_py_def comp_def)
  have lr: "length (rows ?df0) = prod_list (shape arr)"
    by (simp add: new_DataFrame_def size_of_def)
  have c0: "columns ?df0 = vn # ns" by (simp add: new_DataFrame_def)
  have ln: "length ns = ndim arr"
    using comprehension_length [OF c] by (simp add: range_py_def)
  from outer_loop [OF l new_DataFrame_rectangular _ c0] la lr
  have cols: "columns df = vn # ns" and len: "length (rows df) = prod_list (shape arr)"
    and rect: "rectangular df"
    and vals: "(\<forall>adr\<in>set ?adrs. \<forall>d<length adr. \<forall>name.
              names_getitem dn' (int d) = Inr name \<longrightarrow> name \<noteq> vn) \<longrightarrow>
          (\<forall>k<length ?adrs. rows df ! (0 + k) ! 0 = Num (item arr (?adrs ! k)))"
    by (simp_all add: c0)
  have "\<forall>k<prod_list (shape arr).
               rows df ! k ! 0 = Num (item arr (unravel_index k (shape arr)))"
    if fresh: "vn \<notin> set ns"
  proof -
    have "name \<noteq> vn"
      if "adr \<in> set ?adrs" and "d < length adr" and "names_getitem dn' (int d) = Inr name"
      for adr d name
    proof -
      from that(1) have "length adr = ndim arr"
        by (simp add: product_py_elem_length ndim_def)
      with that(2) have d: "d < ndim arr" by simp
      from comprehension_nth [OF c, of d] d
      have "names_getitem dn' (int d) = Inr (ns ! d)" by (simp add: range_py_def)
      with that(3) have "name = ns ! d" by simp
      with d ln fresh show ?thesis by (metis nth_mem)
    qed
    with vals la show ?thesis by (simp add: product_py_nth)
  qed
  with cols len rect ln show ?thesis by simp
qed

text \<open>
  Claim C1, as amended. A frame \<open>array2df\<close> returns has \<open>product(shape)\<close> rows and
  \<open>N + 1\<close> columns, the first of them labelled \<open>value_name\<close>; and when
  \<open>value_name\<close> is not also the label of a dimension's column, the value column of row
  \<open>k\<close> holds the array element at the \<open>k\<close>-th multi-index in row-major order. The
  pandas in use is any whose dtype inference leaves columns and cells as they are.
\<close>

theorem array2df_shape_and_values:
  assumes "array2df pd arr dim_names grps value_name = Inr df" and "keeps_data pd"
  shows "length (rows df) = prod_list (shape arr) \<and>
         length (columns df) = ndim arr + 1 \<and>
         columns df ! 0 = value_name \<and>
         (value_name \<notin> set (tl (columns df)) \<longrightarrow>
            (\<forall>k<prod_list (shape arr).
               rows df ! k ! 0 = Num (item arr (unravel_index k (shape arr)))))"
proof -
  from assms(1) obtain df0 where m: "melt arr dim_names grps value_name = Inr df0"
    and i: "dtype_inference pd df0 = Inr df"
    by (auto simp: array2df_def split: sum.splits)
  from assms(2) i have "columns df = columns df0" and "rows df = rows df0"
    by (simp_all add: keeps_data_def)
  with melt_shape_and_values [OF m] show ?thesis by auto
qed

theorem array2df_shape_and_values_witness:
  "array2df pandas_recent (arange [2, 3]) None None ''value'' =
     Inr \<lparr>columns = [''value'', ''dim_i'', ''dim_j''],
          rows = [[Num 0, Lab ''i0'', Lab ''j0''], [Num 1, Lab ''i0'', Lab ''j1''],
                  [Num 2, Lab ''i0'', Lab ''j2''], [Num 3, Lab ''i1'', Lab ''j0''],
                  [Num 4, Lab ''i1'', Lab ''j1''], [Num 5, Lab ''i1'', Lab ''j2'']],
          dtypes = [Numeric, Object, Object]\<rparr> \<and>
   keeps_data (pandas_recent :: int pandas) \<and>
   ''value'' \<notin> set (tl [''value'', ''dim_i'', ''dim_j'']) \<and>
   unravel_index 4 [2, 3] = [1, 1] \<and>
   item (arange [2, 3]) [1, 1] = 4"
proof -
  let ?T = "\<lparr>columns = [''value'', ''dim_i'', ''dim_j''],
          rows = [[Num 0, Lab ''i0'', Lab ''j0''], [Num 1, Lab ''i0'', Lab ''j1''],
                  [Num 2, Lab ''i0'', Lab ''j2''], [Num 3, Lab ''i1'', Lab ''j0''],
                  [Num 4, Lab ''i1'', Lab ''j1''], [Num 5, Lab ''i1'', Lab ''j2'']],
          dtypes = [Numeric, Object, Object]\<rparr> :: int DataFrame"
  have a: "array2df pandas_recent (arange [2, 3]) None None ''value'' = Inr ?T"
    by code_simp
  have k: "keeps_data (pandas_recent :: int pandas)"
    by (rule dtype_only_keeps_data [OF dtype_only_pandas_recent])
  have f: "''value'' \<notin> set (tl (columns ?T))" by simp
  have u: "unravel_index 4 [2, 3] = [1, 1]" by simp
  from array2df_shape_and_values [OF a k] f
  have all: "\<forall>k<prod_list (shape (arange [2, 3])).
          rows ?T ! k ! 0 = Num (item (arange [2, 3]) (unravel_index k (shape (arange [2, 3]))))"
    by blast
  have s: "shape (arange [2, 3]) = [2, 3]" by (simp add: arange_def)
  have "4 < prod_list (shape (arange [2, 3]))" by (simp add: s)
  with all
  have "rows ?T ! 4 ! 0 = Num (item (arange [2, 3]) (unravel_index 4 (shape (arange [2, 3]))))"
    by blast
  then have "item (arange [2, 3]) [1, 1] = 4" by (simp add: s)
  with a k u show ?thesis by simp
qed

text \<open>
  Claim C1 as stated fails when a dimension is named like the value column: the cells
  are addressed by label, so the label assigned for that dimension overwrites the array
  element in row 0 of \<open>array2df(arange(1), dim_names=['value'])\<close>.
\<close>

theorem array2df_value_column_counterexample:
  "array2df pandas_recent (arange [1]) (Some (NamesList [''value''])) None ''value'' =
     Inr \<lparr>columns = [''value'', ''value''],
          rows = [[Lab ''i0'', Lab ''i0'']],
          dtypes = [Object, Object]\<rparr> \<and>
   item (arange [1]) (unravel_index 0 [1]) = 0"
  by code_simp

section \<open>More than eight dimensions\<close>

lemma comprehension_total:
  "(\<And>x. x \<in> set xs \<Longrightarrow> \<exists>y. f x = Inr y) \<Longrightarrow> \<exists>ys. comprehension f xs = Inr ys"
proof (induction xs)
  case Nil
  then show ?case by simp
next
  case (Cons x xs)
  from Cons.prems [of x] obtain y where "f x = Inr y" by auto
  moreover from Cons obtain ys where "comprehension f xs = Inr ys" by auto
  ultimately show ?case by simp
qed

lemma comprehension_fails_with:
  assumes "x \<in> set xs" and "f x = Inl e"
    and "\<And>y e'. y \<in> set xs \<Longrightarrow> f y = Inl e' \<Longrightarrow> e' = e"
  shows "comprehension f xs = Inl e"
proof -
  from assms(1,2) obtain e' where r: "comprehension f xs = Inl e'"
    using comprehension_fails [of x xs f e] by blast
  from comprehension_Inl [OF r] obtain y where "y \<in> set xs" and "f y = Inl e'" by blast
  with assms(3) have "e' = e" by blast
  with r show ?thesis by simp
qed

lemma length_dim_letters: "length (dim_letters n) = min n 8"
  by (simp add: dim_letters_def)

lemma default_group_cases:
  assumes "length letters = 8"
  shows "default_group letters dim n =
           (if dim < 8 \<or> n = 0
            then Inr (Dict (map (\<lambda>i. ByPos (int i) (letters ! dim @ str_py i)) (range_py n)))
            else Inl IndexError)"
proof (cases "dim < 8")
  case True
  then have "list_getitem letters (int dim) = Inr (letters ! dim)"
    using assms by (simp add: list_getitem_def)
  then have "comprehension
             (\<lambda>i. case list_getitem letters (int dim) of
                     Inl e \<Rightarrow> Inl e
                   | Inr l \<Rightarrow> Inr (ByPos (int i) (l @ str_py i)))
             (range_py n) = Inr (map (\<lambda>i. ByPos (int i) (letters ! dim @ str_py i)) (range_py n))"
    by (intro comprehension_map) simp
  with True show ?thesis by (simp add: default_group_def)
next
  case False
  then have g: "list_getitem letters (int dim) = Inl IndexError"
    using assms by (simp add: list_getitem_def)
  show ?thesis
  proof (cases n)
    case 0
    then show ?thesis by (simp add: default_group_def range_py_def)
  next
    case (Suc m)
    have "comprehension
             (\<lambda>i. case list_getitem letters (int dim) of
                     Inl e \<Rightarrow> Inl e
                   | Inr l \<Rightarrow> Inr (ByPos (int i) (l @ str_py i)))
             (range_py n) = Inl IndexError"
      by (rule comprehension_fails_with [of 0]) (auto simp: g Suc range_py_def)
    with False Suc show ?thesis by (simp add: default_group_def)
  qed
qed

lemma default_groups_over_8:
  assumes "length letters = 8"
  shows "(\<exists>d. 8 \<le> d \<and> d < length shp \<and> shp ! d \<noteq> 0) \<Longrightarrow>
           default_groups letters shp = Inl IndexError"
    and "\<not> (\<exists>d. 8 \<le> d \<and> d < length shp \<and> shp ! d \<noteq> 0) \<Longrightarrow>
           \<exists>gs. default_groups letters shp = Inr gs"
proof -
  let ?f = "\<lambda>dim. case default_group letters dim (shp ! dim) of
                       Inl e \<Rightarrow> Inl e
                     | Inr g \<Rightarrow> Inr (int dim, g)"
  note dg = default_group_cases [OF assms]
  {
    assume "\<exists>d. 8 \<le> d \<and> d < length shp \<and> shp ! d \<noteq> 0"
    then obtain d where d: "8 \<le> d" "d < length shp" "shp ! d \<noteq> 0" by blast
    have "comprehension ?f (range_py (length shp)) = Inl IndexError"
    proof (rule comprehension_fails_with [of d])
      show "d \<in> set (range_py (length shp))" using d by (simp add: range_py_def)
      show "?f d = Inl IndexError" using d by (simp add: dg)
    next
      fix y e'
      assume "?f y = Inl e'"
      then show "e' = IndexError" by (simp add: dg split: if_splits)
    qed
    then show "default_groups letters shp = Inl IndexError"
      by (simp add: default_groups_def)
  next
    assume n: "\<not> (\<exists>d. 8 \<le> d \<and> d < length shp \<and> shp ! d \<noteq> 0)"
    have "\<exists>ys. comprehension ?f (range_py (length shp)) = Inr ys"
    proof (rule comprehension_total)
      fix x assume "x \<in> set (range_py (length shp))"
      then have "x < length shp" by (simp add: range_py_def)
      with n have "x < 8 \<or> shp ! x = 0" by (meson not_le_imp_less)
      then show "\<exists>y. ?f x = Inr y" by (auto simp: dg)
    qed
    then show "\<exists>gs. default_groups letters shp = Inr gs"
      by (auto simp: default_groups_def)
  }
qed

lemma default_dim_names_missing:
  assumes "length letters \<le> i"
  shows "names_getitem (default_dim_names letters) (int i) = Inl KeyError"
proof -
  have "int i \<notin> fst ` set (map (\<lambda>(dim, l). (int dim, ''dim_'' @ l)) (enumerate 0 letters))"
    using assms by (auto simp: in_set_enumerate_eq)
  then have "map_of (map (\<lambda>(dim, l). (int dim, ''dim_'' @ l)) (enumerate 0 letters)) (int i) = None"
    by (simp add: map_of_eq_None_iff)
  then show ?thesis by (simp add: default_dim_names_def dict_getitem_def)
qed

lemma names_getitem_dict_error:
  "names_getitem (NamesDict d) i = Inl e \<Longrightarrow> e = KeyError"
  by (simp add: dict_getitem_def split: option.splits)

lemma default_col_names_over_8:
  assumes "8 < n_dim"
  shows "comprehension (\<lambda>i. names_getitem (default_dim_names (dim_letters n_dim)) (int i))
           (range_py n_dim) = Inl KeyError"
proof (rule comprehension_fails_with [of 8])
  show "8 \<in> set (range_py n_dim)" using assms by (simp add: range_py_def)
  show "names_getitem (default_dim_names (dim_letters n_dim)) (int 8) = Inl KeyError"
    using assms by (intro default_dim_names_missing) (simp add: length_dim_letters)
next
  fix y e'
  assume "names_getitem (default_dim_names (dim_letters n_dim)) (int y) = Inl e'"
  then show "e' = KeyError"
    unfolding default_dim_names_def by (rule names_getitem_dict_error)
qed

text \<open>
  Claim C7, as amended. With default \<open>dim_names\<close> and \<open>groups\<close>, an array of more
  than 8 dimensions never yields a frame. The error is the IndexError of
  \<open>dim_letters[dim]\<close> when a dimension from the ninth on has a nonzero length; when all
  of them are empty, \<open>dim_letters[dim]\<close> is never evaluated and the lookup
  \<open>dim_names[8]\<close> in the default names raises KeyError instead.
\<close>

theorem array2df_default_over_8_dims:
  assumes "8 < ndim arr"
  shows "array2df pd arr None None value_name =
           Inl (if \<exists>d. 8 \<le> d \<and> d < ndim arr \<and> shape arr ! d \<noteq> 0
                then IndexError else KeyError)"
proof -
  have l: "length (dim_letters (ndim arr)) = 8"
    using assms by (simp add: length_dim_letters)
  show ?thesis
  proof (cases "\<exists>d. 8 \<le> d \<and> d < length (shape arr) \<and> shape arr ! d \<noteq> 0")
    case True
    from default_groups_over_8(1) [OF l True]
    have "melt arr None None value_name = Inl IndexError"
      by (simp add: melt_def)
    with True show ?thesis by (simp add: array2df_def ndim_def)
  next
    case False
    from default_groups_over_8(2) [OF l False]
    obtain gs where "default_groups (dim_letters (ndim arr)) (shape arr) = Inr gs" by blast
    then have "melt arr None None value_name = Inl KeyError"
      using default_col_names_over_8 [OF assms] by (simp add: melt_def)
    with False show ?thesis by (simp add: array2df_def ndim_def)
  qed
qed

theorem array2df_default_over_8_dims_witness:
  "8 < ndim (arange [1, 1, 1, 1, 1, 1, 1, 1, 2]) \<and>
   array2df pandas_recent (arange [1, 1, 1, 1, 1, 1, 1, 1, 2]) None None ''value'' =
     Inl IndexError"
proof -
  have n: "8 < ndim (arange [1, 1, 1, 1, 1, 1, 1, 1, 2])" by (simp add: ndim_def arange_def)
  have "\<exists>d. 8 \<le> d \<and> d < ndim (arange [1, 1, 1, 1, 1, 1, 1, 1, 2]) \<and>
          shape (arange [1, 1, 1, 1, 1, 1, 1, 1, 2]) ! d \<noteq> 0"
    by (rule exI [of _ 8]) (simp add: ndim_def arange_def)
  with array2df_default_over_8_dims [OF n, of pandas_recent "''value''"] n
  show ?thesis by simp
qed

text \<open>
  Claim C7 as stated promises an IndexError. For the shape \<open>(1, 1, 1, 1, 1, 1, 1, 1, 0)\<close>
  the error is a KeyError.
\<close>

theorem array2df_default_over_8_dims_counterexample:
  "array2df pandas_recent (arange [1, 1, 1, 1, 1, 1, 1, 1, 0]) None None ''value'' =
     Inl KeyError"
  by code_simp

section \<open>What \<open>_check_dict\<close> collects and validates\<close>

lemma dict_get_setitem:
  "dict_get (setitem es p l) q = (if q = p then Some l else dict_get es q)"
  by (induction es p l rule: setitem.induct) auto

lemma setitem_pos_keys: "list_all is_pos_key es \<Longrightarrow> list_all is_pos_key (setitem es p l)"
  by (induction es p l rule: setitem.induct) auto

lemma assign_positions_snd:
  "snd (assign_positions ps l st) = snd st \<union> set ps"
  unfolding assign_positions_def
  by (induction ps arbitrary: st) (auto split: prod.splits)

lemma assign_positions_get:
  "dict_get (fst (assign_positions ps l st)) q =
     (if q \<in> set ps then Some l else dict_get (fst st) q)"
  unfolding assign_positions_def
  by (induction ps arbitrary: st) (auto split: prod.splits simp: dict_get_setitem)

lemma assign_positions_pos_keys:
  "list_all is_pos_key (fst st) \<Longrightarrow> list_all is_pos_key (fst (assign_positions ps l st))"
  unfolding assign_positions_def
  by (induction ps arbitrary: st) (auto split: prod.splits simp: setitem_pos_keys)

text \<open>Both loop bodies, on the items of their branch, are one inner loop.\<close>

lemma str_keys_step_eq:
  "is_str_key e \<Longrightarrow>
     \<exists>ps. set ps = entry_positions e \<and>
          str_keys_step e st = assign_positions ps (entry_label e) st"
  by (cases e) auto

lemma tuple_keys_step_eq:
  "is_tuple_key e \<Longrightarrow>
     \<exists>ps. set ps = entry_positions e \<and>
          tuple_keys_step e st = assign_positions ps (entry_label e) st"
  by (cases e) auto

lemma fold_step_snd:
  assumes "\<And>e st. e \<in> set dct \<Longrightarrow>
     \<exists>ps. set ps = entry_positions e \<and> step e st = assign_positions ps (entry_label e) st"
  shows "snd (fold step dct st) = snd st \<union> positions_of dct"
  using assms
proof (induction dct arbitrary: st)
  case Nil
  then show ?case by (simp add: positions_of_def)
next
  case (Cons e dct)
  from Cons.prems [of e st] obtain ps where ps: "set ps = entry_positions e"
    and st: "step e st = assign_positions ps (entry_label e) st" by auto
  have "snd (fold step dct (step e st)) = snd (step e st) \<union> positions_of dct"
    by (rule Cons.IH) (use Cons.prems in auto)
  then show ?case
    by (auto simp: st assign_positions_snd ps positions_of_def)
qed

lemma fold_step_pos_keys:
  assumes "\<And>e st. e \<in> set dct \<Longrightarrow>
     \<exists>ps. set ps = entry_positions e \<and> step e st = assign_positions ps (entry_label e) st"
    and "list_all is_pos_key (fst st)"
  shows "list_all is_pos_key (fst (fold step dct st))"
  using assms
proof (induction dct arbitrary: st)
  case Nil
  then show ?case by simp
next
  case (Cons e dct)
  from Cons.prems(1) [of e st] obtain ps where
    st: "step e st = assign_positions ps (entry_label e) st" by auto
  have "list_all is_pos_key (fst (fold step dct (step e st)))"
  proof (rule Cons.IH)
    show "list_all is_pos_key (fst (step e st))"
      using Cons.prems(2) by (simp add: st assign_positions_pos_keys)
  qed (use Cons.prems(1) in auto)
  then show ?case by simp
qed

lemma fold_step_get:
  assumes "\<And>e st. e \<in> set dct \<Longrightarrow>
     \<exists>ps. set ps = entry_positions e \<and> step e st = assign_positions ps (entry_label e) st"
    and "\<And>e p. e \<in> set dct \<Longrightarrow> p \<in> entry_positions e \<Longrightarrow> entry_label e = L p"
  shows "dict_get (fst (fold step dct st)) q =
           (if q \<in> positions_of dct then Some (L q) else dict_get (fst st) q)"
  using assms
proof (induction dct arbitrary: st)
  case Nil
  then show ?case by (simp add: positions_of_def)
next
  case (Cons e dct)
  from Cons.prems(1) [of e st] obtain ps where ps: "set ps = entry_positions e"
    and st: "step e st = assign_positions ps (entry_label e) st" by auto
  have IH: "dict_get (fst (fold step dct (step e st))) q =
           (if q \<in> positions_of dct then Some (L q) else dict_get (fst (step e st)) q)"
    by (rule Cons.IH) (use Cons.prems in auto)
  have lab: "entry_label e = L q" if "q \<in> entry_positions e"
    using Cons.prems(2) [of e q] that by simp
  have first: "dict_get (fst (step e st)) q =
          (if q \<in> entry_positions e then Some (L q) else dict_get (fst st) q)"
    using lab by (simp add: st assign_positions_get ps)
  have "fold step (e # dct) st = fold step dct (step e st)" by simp
  then have "dict_get (fst (fold step (e # dct) st)) q =
          (if q \<in> positions_of dct then Some (L q)
           else if q \<in> entry_positions e then Some (L q) else dict_get (fst st) q)"
    using IH first by presburger
  then show ?case by (auto simp: positions_of_def)
qed

text \<open>The result of \<open>_check_dict\<close> on an all-string or all-tuple dict.\<close>

lemma check_dict_collects:
  assumes "list_all is_str_key dct \<or> list_all is_tuple_key dct"
  shows "check_dict (Dict dct) dim_len =
           (if card (positions_of dct) = dim_len
            then Inr (Dict (fst (fold (if list_all is_str_key dct then str_keys_step
                                       else tuple_keys_step) dct ([], {}))))
            else Inl AssertionError)"
proof (cases "list_all is_str_key dct")
  case True
  have "snd (fold str_keys_step dct ([], {})) = positions_of dct"
    using fold_step_snd [of dct str_keys_step "([], {})"] True str_keys_step_eq
    by (simp add: list_all_iff)
  with True show ?thesis by (simp split: prod.splits) (metis snd_conv)
next
  case False
  with assms have t: "list_all is_tuple_key dct" by simp
  have "snd (fold tuple_keys_step dct ([], {})) = positions_of dct"
    using fold_step_snd [of dct tuple_keys_step "([], {})"] t tuple_keys_step_eq
    by (simp add: list_all_iff)
  with False t show ?thesis by (simp split: prod.splits) (metis snd_conv)
qed

lemma check_dict_error: "check_dict g n = Inl e \<Longrightarrow> e = AssertionError"
  by (cases g) (auto split: if_splits prod.splits)

lemma list_getitem_error: "list_getitem xs i = Inl e \<Longrightarrow> e = IndexError"
  by (simp add: list_getitem_def split: if_splits)

lemma list_getitem_nat: "d < length xs \<Longrightarrow> list_getitem xs (int d) = Inr (xs ! d)"
  by (simp add: list_getitem_def)

lemma group_items_list:
  "(dim, g) \<in> set (group_items (GroupsList l)) \<longleftrightarrow>
     (\<exists>d<length l. dim = int d \<and> g = l ! d)"
proof
  assume "(dim, g) \<in> set (group_items (GroupsList l))"
  then obtain i where "i < length l" and "map int [0..<length l] ! i = dim" and "l ! i = g"
    by (auto simp: in_set_zip)
  then show "\<exists>d<length l. dim = int d \<and> g = l ! d" by auto
next
  assume "\<exists>d<length l. dim = int d \<and> g = l ! d"
  then obtain d where d: "d < length l" "dim = int d" "g = l ! d" by blast
  then have "map int [0..<length l] ! d = dim \<and> l ! d = g \<and>
             d < length (map int [0..<length l]) \<and> d < length l" by simp
  then show "(dim, g) \<in> set (group_items (GroupsList l))"
    unfolding group_items.simps in_set_zip by (intro exI [of _ d]) simp
qed

lemma check_groups_fails:
  assumes "(dim, g) \<in> set (group_items gs)" and "list_getitem shp dim = Inr n"
    and "check_dict g n = Inl e"
  shows "check_groups shp gs = Inl AssertionError \<or>
         check_groups shp gs = Inl IndexError \<and> unknown_dim shp gs"
proof (cases gs)
  case (GroupsDict d)
  let ?f = "\<lambda>(dim, g). case list_getitem shp dim of
                            Inl e \<Rightarrow> Inl e
                          | Inr n \<Rightarrow> (case check_dict g n of
                                       Inl e \<Rightarrow> Inl e
                                     | Inr g' \<Rightarrow> Inr (dim, g'))"
  from assms GroupsDict have "(dim, g) \<in> set d" and "?f (dim, g) = Inl e" by simp_all
  then obtain e' where r: "comprehension ?f d = Inl e'"
    using comprehension_fails [of "(dim, g)" d ?f e] by blast
  from comprehension_Inl [OF r] obtain x where x: "x \<in> set d" and fx: "?f x = Inl e'"
    by blast
  obtain dim' g' where xd: "x = (dim', g')" by (cases x)
  show ?thesis
  proof (cases "list_getitem shp dim'")
    case (Inl e'')
    then have "e'' = IndexError" by (rule list_getitem_error)
    with Inl fx xd have "e' = IndexError" by simp
    moreover have "unknown_dim shp gs"
      using x xd Inl \<open>e'' = IndexError\<close> GroupsDict by (auto simp: unknown_dim_def)
    ultimately show ?thesis using r GroupsDict by simp
  next
    case (Inr n')
    with fx xd have "check_dict g' n' = Inl e'" by (simp split: sum.splits)
    then have "e' = AssertionError" by (rule check_dict_error)
    with r GroupsDict show ?thesis by simp
  qed
next
  case (GroupsList l)
  let ?f = "\<lambda>dim. case list_getitem l (int dim) of
                       Inl e \<Rightarrow> Inl e
                     | Inr g \<Rightarrow> (case list_getitem shp (int dim) of
                                  Inl e \<Rightarrow> Inl e
                                | Inr n \<Rightarrow> check_dict g n)"
  from assms(1) GroupsList have "\<exists>d<length l. dim = int d \<and> g = l ! d"
    by (simp only: group_items_list)
  then obtain d where d: "d < length l" "dim = int d" "g = l ! d" by blast
  with assms have "?f d = Inl e" by (simp add: list_getitem_nat)
  moreover have "d \<in> set (range_py (length l))" using d by (simp add: range_py_def)
  ultimately obtain e' where r: "comprehension ?f (range_py (length l)) = Inl e'"
    using comprehension_fails [of d "range_py (length l)" ?f e] by blast
  from comprehension_Inl [OF r] obtain x where x: "x < length l" and fx: "?f x = Inl e'"
    by (auto simp: range_py_def)
  show ?thesis
  proof (cases "list_getitem shp (int x)")
    case (Inl e'')
    then have e'': "e'' = IndexError" by (rule list_getitem_error)
    with Inl fx x have "e' = IndexError" by (simp add: list_getitem_nat)
    moreover have "(int x, l ! x) \<in> set (group_items gs)"
      using x GroupsList group_items_list [of "int x" "l ! x" l] by blast
    then have "unknown_dim shp gs"
      using Inl e'' by (auto simp: unknown_dim_def)
    ultimately show ?thesis using r GroupsList by simp
  next
    case (Inr n')
    with fx x have "check_dict (l ! x) n' = Inl e'" by (simp add: list_getitem_nat)
    then have "e' = AssertionError" by (rule check_dict_error)
    with r GroupsList show ?thesis by simp
  qed
qed

lemma array2df_check_groups_fails:
  "check_groups (shape arr) gs = Inl e \<Longrightarrow> array2df pd arr dn (Some gs) vn = Inl e"
  by (simp add: array2df_def melt_def)

lemma array2df_group_fails:
  assumes "(dim, g) \<in> set (group_items gs)" and "list_getitem (shape arr) dim = Inr n"
    and "check_dict g n = Inl e"
  shows "array2df pd arr dn (Some gs) vn = Inl AssertionError \<or>
         array2df pd arr dn (Some gs) vn = Inl IndexError \<and> unknown_dim (shape arr) gs"
  using check_groups_fails [OF assms] array2df_check_groups_fails [of arr gs _ pd dn vn]
  by auto

lemma check_dict_fails_iff_aux:
  "check_dict g dim_len = Inl e \<longleftrightarrow>
     e = AssertionError \<and>
     (case g of
        Seq ls \<Rightarrow> length ls \<noteq> dim_len
      | Dict dct \<Rightarrow> (list_all is_str_key dct \<or> list_all is_tuple_key dct) \<and>
                    card (positions_of dct) \<noteq> dim_len)"
proof (cases g)
  case (Seq ls)
  then show ?thesis by auto
next
  case (Dict dct)
  show ?thesis
  proof (cases "list_all is_str_key dct \<or> list_all is_tuple_key dct")
    case True
    from check_dict_collects [OF True, of dim_len] True Dict show ?thesis by auto
  next
    case False
    with Dict show ?thesis by simp
  qed
qed

text \<open>
  Claim C3, as amended. \<open>_check_dict\<close> fails, with an AssertionError, exactly on a
  sequence whose length differs from \<open>dim_len\<close> and on an all-string-keyed or
  all-tuple-keyed dict whose number of distinct collected positions differs from
  \<open>dim_len\<close>; nothing else is checked. When it fails for the entry of a dimension,
  \<open>array2df\<close> returns no frame: it ends with that AssertionError, or with the
  IndexError of an entry for a dimension the array does not have.
\<close>

theorem check_dict_validation:
  "(check_dict g dim_len = Inl e \<longleftrightarrow>
     e = AssertionError \<and>
     (case g of
        Seq ls \<Rightarrow> length ls \<noteq> dim_len
      | Dict dct \<Rightarrow> (list_all is_str_key dct \<or> list_all is_tuple_key dct) \<and>
                    card (positions_of dct) \<noteq> dim_len)) \<and>
   ((dim, g) \<in> set (group_items gs) \<and> list_getitem (shape arr) dim = Inr dim_len \<and>
    check_dict g dim_len = Inl e \<longrightarrow>
      array2df pd arr dn (Some gs) vn = Inl AssertionError \<or>
      array2df pd arr dn (Some gs) vn = Inl IndexError \<and> unknown_dim (shape arr) gs)"
  using check_dict_fails_iff_aux [of g dim_len e]
    array2df_group_fails [of dim g gs arr dim_len e pd dn vn]
  by blast

theorem check_dict_validation_witness:
  "(0, Seq [''a'', ''b'', ''c'']) \<in> set (group_items (GroupsList [Seq [''a'', ''b'', ''c'']])) \<and>
   list_getitem (shape (arange [2])) 0 = Inr 2 \<and>
   check_dict (Seq [''a'', ''b'', ''c'']) 2 = Inl AssertionError \<and>
   \<not> unknown_dim (shape (arange [2])) (GroupsList [Seq [''a'', ''b'', ''c'']]) \<and>
   array2df pandas_recent (arange [2]) None (Some (GroupsList [Seq [''a'', ''b'', ''c'']]))
     ''value'' = Inl AssertionError"
proof -
  let ?g = "Seq [''a'', ''b'', ''c'']"
  let ?gs = "GroupsList [?g]"
  have a: "(0, ?g) \<in> set (group_items ?gs)" by simp
  have b: "list_getitem (shape (arange [2])) 0 = Inr 2" by (simp add: arange_def list_getitem_def)
  have c: "check_dict ?g 2 = Inl AssertionError" by simp
  have d: "\<not> unknown_dim (shape (arange [2])) ?gs"
    by (simp add: unknown_dim_def arange_def list_getitem_def)
  from check_dict_validation [of ?g 2 AssertionError 0 ?gs "arange [2]" pandas_recent None "''value''"]
    a b c d
  have "array2df pandas_recent (arange [2]) None (Some ?gs) ''value'' = Inl AssertionError"
    by blast
  with a b c d show ?thesis by blast
qed

text \<open>
  Claim C3 as stated fails: an integer-keyed dict with a position too many and one
  out of range, and a label-keyed dict that lists positions twice, both for a dimension
  of length 2, pass the normalization and a frame is returned.
\<close>

theorem check_dict_validation_counterexample:
  "array2df pandas_recent (arange [2]) None
     (Some (GroupsList [Dict [ByPos 0 ''a'', ByPos 1 ''b'', ByPos 2 ''c'', ByPos (- 5) ''d'']]))
     ''value'' =
     Inr \<lparr>columns = [''value'', ''dim_i''],
          rows = [[Num 0, Lab ''a''], [Num 1, Lab ''b'']],
          dtypes = [Numeric, Object]\<rparr> \<and>
   array2df pandas_recent (arange [2]) None
     (Some (GroupsList [Dict [ByLabel ''a'' [0, 1, 1, 0]]])) ''value'' =
     Inr \<lparr>columns = [''value'', ''dim_i''],
          rows = [[Num 0, Lab ''a''], [Num 1, Lab ''a'']],
          dtypes = [Numeric, Object]\<rparr>"
  by code_simp

text \<open>
  Claim C6. A label-keyed or tuple-keyed dict for dimension \<open>dim\<close> whose number of
  distinct collected positions differs from \<open>shape[dim]\<close> makes \<open>_check_dict\<close> fail
  with an AssertionError, and \<open>array2df\<close> returns no frame: the AssertionError
  propagates, unless the \<open>groups\<close> argument also names a dimension the array does
  not have, whose IndexError may come first.
\<close>

theorem check_dict_count_mismatch:
  assumes "list_all is_str_key dct \<or> list_all is_tuple_key dct"
    and "card (positions_of dct) \<noteq> n"
    and "(dim, Dict dct) \<in> set (group_items gs)"
    and "list_getitem (shape arr) dim = Inr n"
  shows "check_dict (Dict dct) n = Inl AssertionError \<and>
         (array2df pd arr dn (Some gs) vn = Inl AssertionError \<or>
          array2df pd arr dn (Some gs) vn = Inl IndexError \<and> unknown_dim (shape arr) gs)"
proof -
  have c: "check_dict (Dict dct) n = Inl AssertionError"
    using check_dict_collects [OF assms(1), of n] assms(2) by simp
  from array2df_group_fails [OF assms(3,4) c] c show ?thesis by blast
qed

theorem check_dict_count_mismatch_witness:
  "list_all is_str_key [ByLabel ''A'' [0, 2], ByLabel ''B'' [1]] \<and>
   card (positions_of [ByLabel ''A'' [0, 2], ByLabel ''B'' [1]]) = 3 \<and>
   (0, Dict [ByLabel ''A'' [0, 2], ByLabel ''B'' [1]]) \<in>
     set (group_items (GroupsDict [(0, Dict [ByLabel ''A'' [0, 2], ByLabel ''B'' [1]])])) \<and>
   list_getitem (shape (arange [4, 3])) 0 = Inr 4 \<and>
   check_dict (Dict [ByLabel ''A'' [0, 2], ByLabel ''B'' [1]]) 4 = Inl AssertionError \<and>
   array2df pandas_recent (arange [4, 3]) None
     (Some (GroupsDict [(0, Dict [ByLabel ''A'' [0, 2], ByLabel ''B'' [1]])])) ''value'' =
     Inl AssertionError"
proof -
  let ?dct = "[ByLabel ''A'' [0, 2], ByLabel ''B'' [1]]"
  let ?gs = "GroupsDict [(0, Dict ?dct)]"
  have a: "list_all is_str_key ?dct \<or> list_all is_tuple_key ?dct" by simp
  have b: "card (positions_of ?dct) = 3" by (simp add: positions_of_def)
  then have b': "card (positions_of ?dct) \<noteq> 4" by simp
  have c: "(0, Dict ?dct) \<in> set (group_items ?gs)" by simp
  have d: "list_getitem (shape (arange [4, 3])) 0 = Inr 4"
    by (simp add: arange_def list_getitem_def)
  have u: "\<not> unknown_dim (shape (arange [4, 3])) ?gs"
    by (simp add: unknown_dim_def arange_def list_getitem_def)
  from check_dict_count_mismatch [OF a b' c d, of pandas_recent None "''value''"] u
  have "check_dict (Dict ?dct) 4 = Inl AssertionError"
    and "array2df pandas_recent (arange [4, 3]) None (Some ?gs) ''value'' = Inl AssertionError"
    by blast+
  with a b c d show ?thesis by simp
qed

section \<open>The three encodings of a group\<close>

lemma pos_keys_get:
  assumes "list_all is_pos_key dct"
    and "\<And>e p. e \<in> set dct \<Longrightarrow> p \<in> entry_positions e \<Longrightarrow> entry_label e = L p"
  shows "dict_get dct q = (if q \<in> positions_of dct then Some (L q) else None)"
  using assms
proof (induction dct)
  case Nil
  then show ?case by (simp add: positions_of_def)
next
  case (Cons e dct)
  from Cons.prems(1) obtain p l where e: "e = ByPos p l" by (cases e) auto
  have IH: "dict_get dct q = (if q \<in> positions_of dct then Some (L q) else None)"
    by (rule Cons.IH) (use Cons.prems in auto)
  have "l = L p" using Cons.prems(2) [of e p] e by simp
  then show ?case using IH e by (auto simp: positions_of_def)
qed

lemma card_positions: "card {0..<int n} = n"
  by simp

lemma encodes_check_dict:
  assumes "encodes g labels"
  shows "\<exists>d. check_dict g (length labels) = Inr (Dict d) \<and> canonical_for labels d"
proof -
  from assms obtain dct where g: "g = Dict dct"
    and form: "list_all is_str_key dct \<or> list_all is_tuple_key dct \<or> list_all is_pos_key dct"
    and pos: "positions_of dct = {0..<int (length labels)}"
    and lab: "\<And>e p. e \<in> set dct \<Longrightarrow> p \<in> entry_positions e \<Longrightarrow>
                 entry_label e = labels ! nat p"
    by (cases g) (auto simp: describes_def)
  show ?thesis
  proof (cases "list_all is_str_key dct \<or> list_all is_tuple_key dct")
    case True
    let ?step = "if list_all is_str_key dct then str_keys_step else tuple_keys_step"
    let ?d = "fst (fold ?step dct ([], {}))"
    have step: "\<exists>ps. set ps = entry_positions e \<and>
                  ?step e st = assign_positions ps (entry_label e) st"
      if "e \<in> set dct" for e st
      using that True str_keys_step_eq [of e st] tuple_keys_step_eq [of e st]
      by (auto simp: list_all_iff)
    have c: "check_dict g (length labels) = Inr (Dict ?d)"
      using check_dict_collects [OF True, of "length labels"] pos g by simp
    have k: "list_all is_pos_key ?d"
      by (rule fold_step_pos_keys [OF step]) simp_all
    have "dict_get ?d q =
            (if q \<in> positions_of dct then Some (labels ! nat q)
             else dict_get (fst ([], {} :: int set)) q)"
      for q
    proof (rule fold_step_get [where L = "\<lambda>p. labels ! nat p"])
      fix e st
      assume "e \<in> set dct"
      then show "\<exists>ps. set ps = entry_positions e \<and>
                  ?step e st = assign_positions ps (entry_label e) st"
        by (rule step)
    next
      fix e p
      assume "e \<in> set dct" and "p \<in> entry_positions e"
      then show "entry_label e = labels ! nat p" by (rule lab)
    qed
    then have "canonical_for labels ?d"
      using k pos by (simp add: canonical_for_def)
    with c show ?thesis by blast
  next
    case False
    with form have k: "list_all is_pos_key dct" by simp
    from False g have c: "check_dict g (length labels) = Inr (Dict dct)" by simp
    have "dict_get dct q = (if q \<in> positions_of dct then Some (labels ! nat q) else None)"
      for q
    proof (rule pos_keys_get [where L = "\<lambda>p. labels ! nat p", OF k])
      fix e p
      assume "e \<in> set dct" and "p \<in> entry_positions e"
      then show "entry_label e = labels ! nat p" by (rule lab)
    qed
    then have "canonical_for labels dct"
      using k pos by (simp add: canonical_for_def)
    with c show ?thesis by blast
  qed
qed

lemma canonical_same_labels:
  "canonical_for labels d1 \<Longrightarrow> canonical_for labels d2 \<Longrightarrow> same_labels (Dict d1) (Dict d2)"
  by (simp add: canonical_for_def same_labels_def)

lemma comprehension_rel:
  assumes "list_all2 (\<lambda>x y. rel_sum (=) R (f x) (g y)) xs ys"
  shows "rel_sum (=) (list_all2 R) (comprehension f xs) (comprehension g ys)"
  using assms
proof (induction xs ys rule: list_all2_induct)
  case Nil
  then show ?case by simp
next
  case (Cons x xs y ys)
  then show ?case
    by (cases "f x"; cases "g y"; cases "comprehension f xs"; cases "comprehension g ys") auto
qed

lemma map_of_rel:
  assumes "list_all2 (\<lambda>(k1, g1) (k2, g2). k1 = k2 \<and> same_labels g1 g2) d1 d2"
  shows "rel_sum (=) same_labels (dict_getitem d1 k) (dict_getitem d2 k)"
  using assms
  by (induction d1 d2 rule: list_all2_induct) (auto simp: dict_getitem_def)

lemma list_getitem_rel:
  assumes "list_all2 same_labels l1 l2"
  shows "rel_sum (=) same_labels (list_getitem l1 i) (list_getitem l2 i)"
proof -
  from assms have len: "length l1 = length l2" by (rule list_all2_lengthD)
  have "same_labels (l1 ! j) (l2 ! j)" if "j < length l2" for j
    using assms that len by (simp add: list_all2_nthD)
  then show ?thesis
    by (auto simp: list_getitem_def len)
qed

lemma group_label_rel:
  assumes "rel_sum (=) same_labels (groups_getitem gs1 dim) (groups_getitem gs2 dim)"
  shows "group_label gs1 dim p = group_label gs2 dim p"
  using assms
  by (cases "groups_getitem gs1 dim"; cases "groups_getitem gs2 dim")
    (auto simp: group_label_def same_labels_def)

lemma set_label_group_label:
  "set_label dn gs idx (d, a) df =
     (case group_label gs (int d) (int a) of
        Inl e \<Rightarrow> Inl e
      | Inr label \<Rightarrow>
         (case names_getitem dn (int d) of
            Inl e \<Rightarrow> Inl e
          | Inr name \<Rightarrow> Inr (loc_set df idx name (Lab label))))"
  by (cases "groups_getitem gs (int d)") (simp_all add: set_label_def group_label_def)

lemma set_label_same_lookups:
  assumes "same_lookups gs1 gs2"
  shows "set_label dn gs1 idx = set_label dn gs2 idx"
proof (intro ext)
  fix x :: "nat \<times> nat" and df :: "'a DataFrame"
  obtain d a where x: "x = (d, a)" by (cases x)
  from assms have "group_label gs1 (int d) (int a) = group_label gs2 (int d) (int a)"
    by (simp add: same_lookups_def)
  then show "set_label dn gs1 idx x df = set_label dn gs2 idx x df"
    unfolding x set_label_group_label by simp
qed

lemma fill_row_same_lookups:
  assumes "same_lookups gs1 gs2"
  shows "fill_row arr dn gs1 vn = fill_row arr dn gs2 vn"
  unfolding fill_row_def set_label_same_lookups [OF assms] ..

lemma encoded_entry_rel:
  assumes "encodes g1 labels" and "encodes g2 labels" and "length labels = n"
  shows "rel_sum (=) same_labels (check_dict g1 n) (check_dict g2 n)"
proof -
  from encodes_check_dict [OF assms(1)] obtain d1 where
    "check_dict g1 (length labels) = Inr (Dict d1)" "canonical_for labels d1" by blast
  moreover from encodes_check_dict [OF assms(2)] obtain d2 where
    "check_dict g2 (length labels) = Inr (Dict d2)" "canonical_for labels d2" by blast
  ultimately show ?thesis
    using assms(3) by (auto intro: canonical_same_labels)
qed

lemma check_groups_rel:
  assumes "same_dims gs1 gs2" and "encodes_all shp L gs1" and "encodes_all shp L gs2"
  shows "rel_sum (=) same_lookups (check_groups shp gs1) (check_groups shp gs2)"
proof (cases gs1)
  case d1: (GroupsDict d1)
  with assms(1) obtain d2 where d2: "gs2 = GroupsDict d2"
    by (cases gs2) (auto simp: same_dims_def)
  from assms(1) d1 d2 have keys: "map fst d1 = map fst d2" by (simp add: same_dims_def)
  then have len: "length d1 = length d2" by (metis length_map)
  let ?f = "\<lambda>(dim, g). case list_getitem shp dim of
                            Inl e \<Rightarrow> Inl e
                          | Inr n \<Rightarrow> (case check_dict g n of
                                       Inl e \<Rightarrow> Inl e
                                     | Inr g' \<Rightarrow> Inr (dim, g'))"
  let ?R = "\<lambda>(k1, g1) (k2, g2 :: group). k1 = (k2 :: int) \<and> same_labels g1 g2"
  have "rel_sum (=) ?R (?f (d1 ! i)) (?f (d2 ! i))" if i: "i < length d1" for i
  proof -
    obtain k g1 where x: "d1 ! i = (k, g1)" by (cases "d1 ! i")
    obtain k' g2 where y: "d2 ! i = (k', g2)" by (cases "d2 ! i")
    from keys i len have "fst (d1 ! i) = fst (d2 ! i)" by (metis nth_map)
    with x y have k: "k' = k" by simp
    from i x have m1: "(k, g1) \<in> set (group_items gs1)" unfolding d1 by (metis group_items.simps(1) nth_mem)
    from i len y k have m2: "(k, g2) \<in> set (group_items gs2)" unfolding d2 by (metis group_items.simps(1) nth_mem)
    show ?thesis
    proof (cases "list_getitem shp k")
      case (Inl e)
      then show ?thesis by (simp add: x y k)
    next
      case (Inr n)
      from assms(2) m1 Inr have e1: "encodes g1 (L k)" and l: "length (L k) = n"
        by (auto simp: encodes_all_def)
      from assms(3) m2 Inr have e2: "encodes g2 (L k)"
        by (auto simp: encodes_all_def)
      from encoded_entry_rel [OF e1 e2 l] show ?thesis
        by (cases "check_dict g1 n"; cases "check_dict g2 n") (simp_all add: x y k Inr)
    qed
  qed
  with len have "list_all2 (\<lambda>x y. rel_sum (=) ?R (?f x) (?f y)) d1 d2"
    by (simp add: list_all2_conv_all_nth)
  from comprehension_rel [OF this]
  have "rel_sum (=) (list_all2 ?R) (comprehension ?f d1) (comprehension ?f d2)" .
  then show ?thesis
    unfolding d1 d2
    by (cases "comprehension ?f d1"; cases "comprehension ?f d2")
      (auto simp: same_lookups_def intro!: group_label_rel map_of_rel)
next
  case l1: (GroupsList l1)
  with assms(1) obtain l2 where l2: "gs2 = GroupsList l2"
    by (cases gs2) (auto simp: same_dims_def)
  from assms(1) l1 l2 have "map int [0..<length l1] = map int [0..<length l2]"
    by (simp add: same_dims_def)
  then have len: "length l1 = length l2" by (metis length_map length_upt minus_nat.diff_0)
  let ?f = "\<lambda>l dim. case list_getitem l (int dim) of
                       Inl e \<Rightarrow> Inl e
                     | Inr g \<Rightarrow> (case list_getitem shp (int dim) of
                                  Inl e \<Rightarrow> Inl (e :: error)
                                | Inr n \<Rightarrow> check_dict g n)"
  have "rel_sum (=) same_labels (?f l1 d) (?f l2 d)" if d: "d < length l1" for d
  proof (cases "list_getitem shp (int d)")
    case (Inl e)
    with d len show ?thesis by (simp add: list_getitem_nat)
  next
    case (Inr n)
    from d have "(int d, l1 ! d) \<in> set (group_items gs1)"
      unfolding l1 using group_items_list [of "int d" "l1 ! d" l1] by blast
    with assms(2) Inr have e1: "encodes (l1 ! d) (L (int d))" and l: "length (L (int d)) = n"
      by (auto simp: encodes_all_def)
    from d len have "(int d, l2 ! d) \<in> set (group_items gs2)"
      unfolding l2 using group_items_list [of "int d" "l2 ! d" l2] by auto
    with assms(3) Inr have e2: "encodes (l2 ! d) (L (int d))"
      by (auto simp: encodes_all_def)
    from encoded_entry_rel [OF e1 e2 l] d len Inr show ?thesis
      by (simp add: list_getitem_nat)
  qed
  then have "list_all2 (\<lambda>x y. rel_sum (=) same_labels (?f l1 x) (?f l2 y))
               (range_py (length l1)) (range_py (length l1))"
    by (simp add: list_all2_same range_py_def)
  from comprehension_rel [OF this]
  have "rel_sum (=) (list_all2 same_labels) (comprehension (?f l1) (range_py (length l1)))
          (comprehension (?f l2) (range_py (length l2)))"
    by (simp add: len)
  then show ?thesis
    unfolding l1 l2
    by (cases "comprehension (?f l1) (range_py (length l1))";
        cases "comprehension (?f l2) (range_py (length l2))")
      (auto simp: same_lookups_def intro!: group_label_rel list_getitem_rel)
qed

lemma melt_encodings_agree:
  assumes "same_dims gs1 gs2" and "encodes_all (shape arr) L gs1"
    and "encodes_all (shape arr) L gs2"
  shows "melt arr dn (Some gs1) vn = melt arr dn (Some gs2) vn"
proof -
  from check_groups_rel [OF assms]
  have r: "rel_sum (=) same_lookups (check_groups (shape arr) gs1) (check_groups (shape arr) gs2)" .
  show ?thesis
  proof (cases "check_groups (shape arr) gs1")
    case (Inl e)
    with r have "check_groups (shape arr) gs2 = Inl e"
      by (cases "check_groups (shape arr) gs2") simp_all
    with Inl show ?thesis by (simp add: melt_def)
  next
    case (Inr g1')
    with r obtain g2' where g2: "check_groups (shape arr) gs2 = Inr g2'"
      and s: "same_lookups g1' g2'"
      by (cases "check_groups (shape arr) gs2") simp_all
    from Inr g2 show ?thesis
      by (simp add: melt_def Let_def fill_row_same_lookups [OF s] cong: sum.case_cong)
  qed
qed

text \<open>
  Claim C5. Two encodings of the same list of labels, each label-keyed, tuple-keyed or
  position-keyed, are normalized by \<open>_check_dict\<close> to canonical dicts for that list,
  which hold the same position-to-label mapping; and two \<open>groups\<close> arguments that
  encode, dimension by dimension, the same labels give the same result of \<open>array2df\<close>.
\<close>

theorem encodings_agree:
  assumes "encodes g1 labels" and "encodes g2 labels"
  shows "(\<exists>d1 d2. check_dict g1 (length labels) = Inr (Dict d1) \<and>
            check_dict g2 (length labels) = Inr (Dict d2) \<and>
            canonical_for labels d1 \<and> canonical_for labels d2 \<and>
            (\<forall>p. dict_get d1 p = dict_get d2 p)) \<and>
         (same_dims gs1 gs2 \<and> encodes_all (shape arr) L gs1 \<and>
          encodes_all (shape arr) L gs2 \<longrightarrow>
            array2df pd arr dn (Some gs1) vn = array2df pd arr dn (Some gs2) vn)"
proof -
  from encodes_check_dict [OF assms(1)] obtain d1 where
    d1: "check_dict g1 (length labels) = Inr (Dict d1)" "canonical_for labels d1" by blast
  from encodes_check_dict [OF assms(2)] obtain d2 where
    d2: "check_dict g2 (length labels) = Inr (Dict d2)" "canonical_for labels d2" by blast
  from d1(2) d2(2) have "\<forall>p. dict_get d1 p = dict_get d2 p"
    by (simp add: canonical_for_def)
  with d1 d2 have "\<exists>d1 d2. check_dict g1 (length labels) = Inr (Dict d1) \<and>
            check_dict g2 (length labels) = Inr (Dict d2) \<and>
            canonical_for labels d1 \<and> canonical_for labels d2 \<and>
            (\<forall>p. dict_get d1 p = dict_get d2 p)" by blast
  moreover have "array2df pd arr dn (Some gs1) vn = array2df pd arr dn (Some gs2) vn"
    if "same_dims gs1 gs2" "encodes_all (shape arr) L gs1" "encodes_all (shape arr) L gs2"
    using melt_encodings_agree [OF that] by (simp add: array2df_def)
  ultimately show ?thesis by blast
qed

theorem encodings_agree_witness:
  "encodes (Dict [ByLabel ''A'' [0, 2], ByLabel ''B'' [1, 3]]) [''A'', ''B'', ''A'', ''B''] \<and>
   encodes (Dict [ByTuple [1, 3] ''B'', ByTuple [0] ''A'', ByTuple [2] ''A''])
     [''A'', ''B'', ''A'', ''B''] \<and>
   same_dims (GroupsList [Dict [ByLabel ''A'' [0, 2], ByLabel ''B'' [1, 3]]])
     (GroupsList [Dict [ByTuple [1, 3] ''B'', ByTuple [0] ''A'', ByTuple [2] ''A'']]) \<and>
   encodes_all (shape (arange [4])) (\<lambda>dim. [''A'', ''B'', ''A'', ''B''])
     (GroupsList [Dict [ByLabel ''A'' [0, 2], ByLabel ''B'' [1, 3]]]) \<and>
   encodes_all (shape (arange [4])) (\<lambda>dim. [''A'', ''B'', ''A'', ''B''])
     (GroupsList [Dict [ByTuple [1, 3] ''B'', ByTuple [0] ''A'', ByTuple [2] ''A'']]) \<and>
   array2df pandas_recent (arange [4]) None
     (Some (GroupsList [Dict [ByLabel ''A'' [0, 2], ByLabel ''B'' [1, 3]]])) ''value'' =
   array2df pandas_recent (arange [4]) None
     (Some (GroupsList [Dict [ByTuple [1, 3] ''B'', ByTuple [0] ''A'', ByTuple [2] ''A'']]))
     ''value''"
proof -
  let ?labels = "[''A'', ''B'', ''A'', ''B'']"
  let ?g1 = "Dict [ByLabel ''A'' [0, 2], ByLabel ''B'' [1, 3]]"
  let ?g2 = "Dict [ByTuple [1, 3] ''B'', ByTuple [0] ''A'', ByTuple [2] ''A'']"
  have e1: "encodes ?g1 ?labels" by code_simp
  have e2: "encodes ?g2 ?labels" by code_simp
  have s: "same_dims (GroupsList [?g1]) (GroupsList [?g2])" by (simp add: same_dims_def)
  have sh: "list_getitem (shape (arange [4])) 0 = Inr 4"
    by (simp add: arange_def list_getitem_def)
  have a1: "encodes_all (shape (arange [4])) (\<lambda>dim. ?labels) (GroupsList [?g1])"
    unfolding encodes_all_def using e1 sh by simp
  have a2: "encodes_all (shape (arange [4])) (\<lambda>dim. ?labels) (GroupsList [?g2])"
    unfolding encodes_all_def using e2 sh by simp
  from encodings_agree [OF e1 e2, of "GroupsList [?g1]" "GroupsList [?g2]" "arange [4]"
      "\<lambda>dim. ?labels" pandas_recent None "''value''"] s a1 a2
  have "array2df pandas_recent (arange [4]) None (Some (GroupsList [?g1])) ''value'' =
        array2df pandas_recent (arange [4]) None (Some (GroupsList [?g2])) ''value''"
    by blast
  with e1 e2 s a1 a2 show ?thesis by blast
qed

section \<open>What \<open>array2df\<close> leaves of the store\<close>

lemma preserves_refl: "preserves n h h"
  by (simp add: preserves_def)

lemma preserves_trans: "preserves n h h1 \<Longrightarrow> preserves n h1 h2 \<Longrightarrow> preserves n h h2"
  by (simp add: preserves_def)

lemma preserves_length: "preserves n h h' \<Longrightarrow> n \<le> length h \<Longrightarrow> n \<le> length h'"
  by (simp add: preserves_def)

lemma alloc_preserves:
  assumes "alloc ob h = (a, h')" and "n \<le> length h"
  shows "preserves n h h'" and "a = length h" and "a < length h'"
  using assms by (auto simp: alloc_def preserves_def)

lemma dict_setitem_at_preserves: "n \<le> a \<Longrightarrow> preserves n h (dict_setitem_at a p l h)"
  by (auto simp: dict_setitem_at_def preserves_def split: option.splits obj.splits group.splits)

lemma set_add_at_preserves: "n \<le> a \<Longrightarrow> preserves n h (set_add_at a v h)"
  by (auto simp: set_add_at_def preserves_def split: option.splits obj.splits)

lemma loc_set_at_preserves: "n \<le> a \<Longrightarrow> preserves n h (loc_set_at a idx name v h)"
  by (auto simp: loc_set_at_def preserves_def split: option.splits obj.splits)

lemma fold_preserves:
  assumes "\<And>x h. x \<in> set xs \<Longrightarrow> preserves n h (f x h)"
  shows "preserves n h (fold f xs h)"
  using assms
proof (induction xs arbitrary: h)
  case Nil
  then show ?case by (simp add: preserves_refl)
next
  case (Cons x xs)
  have "preserves n h (f x h)" using Cons.prems by simp
  moreover have "preserves n (f x h) (fold f xs (f x h))"
    by (rule Cons.IH) (use Cons.prems in simp)
  ultimately show ?case by (auto intro: preserves_trans)
qed

lemma assign_positions_st_preserves:
  assumes "n \<le> new_dct" and "n \<le> vals_set"
  shows "preserves n h (assign_positions_st new_dct vals_set ps label h)"
  unfolding assign_positions_st_def
  by (rule fold_preserves)
    (blast intro: preserves_trans dict_setitem_at_preserves set_add_at_preserves assms)

lemma str_keys_step_st_preserves:
  assumes "n \<le> new_dct" and "n \<le> vals_set"
  shows "preserves n h (str_keys_step_st new_dct vals_set e h)"
  by (cases e) (simp_all add: assign_positions_st_preserves assms preserves_refl)

lemma tuple_keys_step_st_preserves:
  assumes "n \<le> new_dct" and "n \<le> i_set"
  shows "preserves n h (tuple_keys_step_st new_dct i_set e h)"
  by (cases e) (simp_all add: assign_positions_st_preserves assms preserves_refl)

lemma check_dict_st_preserves:
  assumes "check_dict_st a dim_len h = (h', r)" and "n \<le> length h"
  shows "preserves n h h'"
proof (cases "\<exists>dct. deref h a = Some (GroupObj (Dict dct)) \<and>
                (list_all is_str_key dct \<or> list_all is_tuple_key dct)")
  case False
  with assms(1) have "h' = h"
    by (auto simp: check_dict_st_def split: option.splits obj.splits group.splits if_splits)
  then show ?thesis by (simp add: preserves_refl)
next
  case True
  then obtain dct where d: "deref h a = Some (GroupObj (Dict dct))"
    and k: "list_all is_str_key dct \<or> list_all is_tuple_key dct" by blast
  show ?thesis
  proof (cases "list_all is_str_key dct")
    case True
    let ?h1 = "h @ [SetObj {}]"
    let ?h2 = "?h1 @ [GroupObj (Dict [])]"
    let ?h3 = "fold (str_keys_step_st (Suc (length h)) (length h)) dct ?h2"
    from assms(1) d True have h': "h' = ?h3"
      by (auto simp: check_dict_st_def alloc_def Let_def split: if_splits)
    have "preserves n h ?h2" using assms(2) by (simp add: preserves_def)
    moreover have "preserves n ?h2 ?h3"
      by (rule fold_preserves) (rule str_keys_step_st_preserves; use assms(2) in simp)
    ultimately show ?thesis unfolding h' by (rule preserves_trans)
  next
    case False
    with k have t: "list_all is_tuple_key dct" by simp
    let ?h1 = "h @ [GroupObj (Dict [])]"
    let ?h2 = "?h1 @ [SetObj {}]"
    let ?h3 = "fold (tuple_keys_step_st (length h) (Suc (length h))) dct ?h2"
    from assms(1) d False t have h': "h' = ?h3"
      by (auto simp: check_dict_st_def alloc_def Let_def split: if_splits)
    have "preserves n h ?h2" using assms(2) by (simp add: preserves_def)
    moreover have "preserves n ?h2 ?h3"
      by (rule fold_preserves) (rule tuple_keys_step_st_preserves; use assms(2) in simp)
    ultimately show ?thesis unfolding h' by (rule preserves_trans)
  qed
qed

lemma check_entry_st_preserves:
  assumes "check_entry_st shp dim g h = (h', r)" and "n \<le> length h"
  shows "preserves n h h'"
  using assms
  by (auto simp: check_entry_st_def preserves_refl split: sum.splits
      intro: check_dict_st_preserves)

lemma comprehension_st_preserves:
  assumes "comprehension_st f xs h = (h', r)" and "n \<le> length h"
    and "\<And>x t t' y. x \<in> set xs \<Longrightarrow> n \<le> length t \<Longrightarrow> f x t = (t', y) \<Longrightarrow> preserves n t t'"
  shows "preserves n h h'"
  using assms
proof (induction xs arbitrary: h r h')
  case Nil
  then show ?case by (simp add: preserves_refl)
next
  case (Cons x xs)
  obtain h1 y where f: "f x h = (h1, y)" by (cases "f x h")
  have p1: "preserves n h h1" using Cons.prems(3) [of x h h1 y] Cons.prems(2) f by simp
  then have n1: "n \<le> length h1" using Cons.prems(2) by (rule preserves_length)
  show ?case
  proof (cases y)
    case (Inl e)
    with Cons.prems(1) f have "h' = h1" by simp
    with p1 show ?thesis by simp
  next
    case (Inr v)
    obtain h2 r2 where c: "comprehension_st f xs h1 = (h2, r2)"
      by (cases "comprehension_st f xs h1")
    have "preserves n h1 h2"
    proof (rule Cons.IH [OF c n1])
      fix z t t' w
      assume "z \<in> set xs" and "n \<le> length t" and "f z t = (t', w)"
      then show "preserves n t t'" using Cons.prems(3) [of z t t' w] by simp
    qed
    moreover from Cons.prems(1) f Inr c have "h' = h2" by (auto split: sum.splits)
    ultimately show ?thesis using p1 by (auto intro: preserves_trans)
  qed
qed

lemma for_loop_st_preserves:
  assumes "for_loop_st body xs h = (h', r)" and "n \<le> length h"
    and "\<And>x t t' y. x \<in> set xs \<Longrightarrow> n \<le> length t \<Longrightarrow> body x t = (t', y)
           \<Longrightarrow> preserves n t t'"
  shows "preserves n h h'"
  using assms
proof (induction xs arbitrary: h)
  case Nil
  then show ?case by (simp add: preserves_refl)
next
  case (Cons x xs)
  obtain h1 y where f: "body x h = (h1, y)" by (cases "body x h")
  have p1: "preserves n h h1" using Cons.prems(3) [of x h h1 y] Cons.prems(2) f by simp
  then have n1: "n \<le> length h1" using Cons.prems(2) by (rule preserves_length)
  show ?case
  proof (cases y)
    case (Some e)
    with Cons.prems(1) f have "h' = h1" by simp
    with p1 show ?thesis by simp
  next
    case None
    with Cons.prems(1) f have c: "for_loop_st body xs h1 = (h', r)" by simp
    have "preserves n h1 h'"
    proof (rule Cons.IH [OF c n1])
      fix z t t' w
      assume "z \<in> set xs" and "n \<le> length t" and "body z t = (t', w)"
      then show "preserves n t t'" using Cons.prems(3) [of z t t' w] by simp
    qed
    with p1 show ?thesis by (rule preserves_trans)
  qed
qed

lemma check_groups_st_preserves:
  assumes "check_groups_st shp a h = (h', r)" and "n \<le> length h"
  shows "preserves n h h'"
proof (cases "deref h a")
  case None
  with assms(1) show ?thesis by (simp add: check_groups_st_def preserves_refl)
next
  case (Some ob)
  show ?thesis
  proof (cases ob)
    case (GroupsDictObj gs)
    let ?f = "\<lambda>(dim, g) h. case check_entry_st shp dim g h of
                                   (h', Inl e) \<Rightarrow> (h', Inl e)
                                 | (h', Inr g') \<Rightarrow> (h', Inr (dim, g'))"
    obtain h1 r1 where c: "comprehension_st ?f gs h = (h1, r1)"
      by (cases "comprehension_st ?f gs h")
    have p1: "preserves n h h1"
    proof (rule comprehension_st_preserves [OF c assms(2)])
      fix x :: "int \<times> addr" and t t' :: "'a store" and y
      assume "n \<le> length t" and "?f x t = (t', y)"
      then show "preserves n t t'"
        by (cases x; cases "check_entry_st shp (fst x) (snd x) t")
          (auto split: sum.splits dest: check_entry_st_preserves)
    qed
    then have n1: "n \<le> length h1" using assms(2) by (rule preserves_length)
    from assms(1) Some GroupsDictObj c
    have "h' = h1 \<or> (\<exists>ob. h' = h1 @ [ob])"
      by (auto simp: check_groups_st_def alloc_def split: sum.splits)
    then have "preserves n h1 h'" using n1 by (auto simp: preserves_def)
    with p1 show ?thesis by (rule preserves_trans)
  next
    case (GroupsListObj gl)
    let ?f = "\<lambda>dim h. case list_getitem gl (int dim) of
                              Inl e \<Rightarrow> (h, Inl e)
                            | Inr g \<Rightarrow> check_entry_st shp (int dim) g h"
    obtain h1 r1 where c: "comprehension_st ?f (range_py (length gl)) h = (h1, r1)"
      by (cases "comprehension_st ?f (range_py (length gl)) h")
    have p1: "preserves n h h1"
    proof (rule comprehension_st_preserves [OF c assms(2)])
      fix x :: nat and t t' :: "'a store" and y
      assume "n \<le> length t" and "?f x t = (t', y)"
      then show "preserves n t t'"
        by (auto split: sum.splits simp: preserves_refl dest: check_entry_st_preserves)
    qed
    then have n1: "n \<le> length h1" using assms(2) by (rule preserves_length)
    from assms(1) Some GroupsListObj c
    have "h' = h1 \<or> (\<exists>ob. h' = h1 @ [ob])"
      by (auto simp: check_groups_st_def alloc_def split: sum.splits)
    then have "preserves n h1 h'" using n1 by (auto simp: preserves_def)
    with p1 show ?thesis by (rule preserves_trans)
  qed (use assms(1) Some in \<open>simp_all add: check_groups_st_def preserves_refl\<close>)
qed

lemma default_groups_st_preserves:
  assumes "default_groups_st letters shp h = (h', r)" and "n \<le> length h"
  shows "preserves n h h'"
proof -
  let ?f = "\<lambda>dim h. case default_group letters dim (shp ! dim) of
                         Inl e \<Rightarrow> (h, Inl e)
                       | Inr g \<Rightarrow> (case alloc (GroupObj g) h of
                                    (a, h') \<Rightarrow> (h', Inr (int dim, a)))"
  obtain h1 r1 where c: "comprehension_st ?f (range_py (length shp)) h = (h1, r1)"
    by (cases "comprehension_st ?f (range_py (length shp)) h")
  have p1: "preserves n h h1"
  proof (rule comprehension_st_preserves [OF c assms(2)])
    fix x :: nat and t t' :: "'a store" and y
    assume "n \<le> length t" and "?f x t = (t', y)"
    then show "preserves n t t'"
      by (auto split: sum.splits simp: preserves_def alloc_def)
  qed
  then have n1: "n \<le> length h1" using assms(2) by (rule preserves_length)
  from assms(1) c have "h' = h1 \<or> (\<exists>ob. h' = h1 @ [ob])"
    by (auto simp: default_groups_st_def alloc_def split: sum.splits)
  then have "preserves n h1 h'" using n1 by (auto simp: preserves_def)
  with p1 show ?thesis by (rule preserves_trans)
qed

lemma set_label_st_preserves:
  assumes "set_label_st dn gs df idx x h = (h', r)" and "n \<le> df"
  shows "preserves n h h'"
  using assms
  by (cases x) (auto simp: set_label_st_def preserves_refl loc_set_at_preserves
      split: sum.splits)

lemma fill_row_st_preserves:
  assumes "fill_row_st arr dn gs df vn x h = (h', r)" and "n \<le> df" and "n \<le> length h"
  shows "preserves n h h'"
proof -
  obtain idx adr where x: "x = (idx, adr)" by (cases x)
  show ?thesis
  proof (cases "\<exists>a. deref h arr = Some (ArrayObj a)")
    case False
    with assms(1) have "h' = h"
      by (auto simp: fill_row_st_def x split: option.splits obj.splits)
    then show ?thesis by (simp add: preserves_refl)
  next
    case True
    then obtain a where a: "deref h arr = Some (ArrayObj a)" by blast
    let ?h1 = "loc_set_at df idx vn (Num (item a adr)) h"
    have p1: "preserves n h ?h1" by (rule loc_set_at_preserves [OF assms(2)])
    then have n1: "n \<le> length ?h1" using assms(3) by (rule preserves_length)
    from assms(1) a x
    have l: "for_loop_st (set_label_st dn gs df idx) (enumerate 0 adr) ?h1 = (h', r)"
      by (simp add: fill_row_st_def)
    have "preserves n ?h1 h'"
      by (rule for_loop_st_preserves [OF l n1]) (rule set_label_st_preserves [OF _ assms(2)])
    with p1 show ?thesis by (rule preserves_trans)
  qed
qed

lemma dtype_inference_st_result:
  assumes "dtype_inference_st pd df h = (h', res)" and "n \<le> length h"
  shows "preserves n h h' \<and>
         (\<forall>a. res = Inr a \<longrightarrow> length h \<le> a \<and> (\<exists>d. deref h' a = Some (FrameObj d)))"
  using assms
  by (auto simp: dtype_inference_st_def alloc_def preserves_def deref_def
      split: option.splits obj.splits sum.splits)

lemma array2df_st_preserves:
  assumes "array2df_st pd arr dim_names grps value_name h = (h', res)"
  shows "preserves (length h) h h' \<and>
         (\<forall>a. res = Inr a \<longrightarrow> length h \<le> a \<and> (\<exists>d. deref h' a = Some (FrameObj d)))"
proof (cases "\<exists>a. deref h arr = Some (ArrayObj a)")
  case False
  with assms have "h' = h" and "res = Inl TypeError"
    by (auto simp: array2df_st_def split: option.splits obj.splits)
  then show ?thesis by (simp add: preserves_refl)
next
  case True
  then obtain a where a: "deref h arr = Some (ArrayObj a)" by blast
  let ?n = "length h"
  let ?letters = "dim_letters (ndim a)"
  obtain dn' h1 where dn: "(case dim_names of
                      None \<Rightarrow> alloc (NamesObj (default_dim_names ?letters)) h
                    | Some d \<Rightarrow> (d, h)) = (dn', h1)"
    by (cases "case dim_names of
                      None \<Rightarrow> alloc (NamesObj (default_dim_names ?letters)) h
                    | Some d \<Rightarrow> (d, h)")
  then have p1: "preserves ?n h h1"
    by (auto simp: alloc_def preserves_def split: option.splits)
  then have n1: "?n \<le> length h1" by (simp add: preserves_def)
  obtain h2 r2 where g: "(case grps of
                      None \<Rightarrow> default_groups_st ?letters (shape a) h1
                    | Some g \<Rightarrow> check_groups_st (shape a) g h1) = (h2, r2)"
    by (cases "case grps of
                      None \<Rightarrow> default_groups_st ?letters (shape a) h1
                    | Some g \<Rightarrow> check_groups_st (shape a) g h1")
  then have "preserves ?n h1 h2"
    using n1 by (auto split: option.splits
        intro: default_groups_st_preserves check_groups_st_preserves)
  with p1 have p2: "preserves ?n h h2" by (rule preserves_trans)
  then have n2: "?n \<le> length h2" by (simp add: preserves_def)
  show ?thesis
  proof (cases r2)
    case (Inl e)
    with assms a dn g have "h' = h2" and "res = Inl e"
      by (simp_all add: array2df_st_def Let_def)
    with p2 show ?thesis by simp
  next
    case grps': (Inr gs')
    show ?thesis
    proof (cases "comprehension (\<lambda>i. names_getitem_at h2 dn' (int i)) (range_py (ndim a))")
      case (Inl e)
      with assms a dn g grps' have "h' = h2" and "res = Inl e"
        by (simp_all add: array2df_st_def Let_def)
      with p2 show ?thesis by simp
    next
      case (Inr ns)
      let ?df = "length h2"
      let ?h3 = "h2 @ [FrameObj (new_DataFrame (value_name # ns) (size_of a))]"
      have p3: "preserves ?n h ?h3" using p2 n2 by (simp add: preserves_def)
      obtain h4 r4 where l: "for_loop_st (fill_row_st arr dn' gs' ?df value_name)
                                  (enumerate 0 (product_py (map range_py (shape a)))) ?h3 = (h4, r4)"
        by (cases "for_loop_st (fill_row_st arr dn' gs' ?df value_name)
                                  (enumerate 0 (product_py (map range_py (shape a)))) ?h3")
      have "preserves ?n ?h3 h4"
      proof (rule for_loop_st_preserves [OF l])
        show "?n \<le> length ?h3" using n2 by simp
      next
        fix x t t' y
        assume "?n \<le> length t" and "fill_row_st arr dn' gs' ?df value_name x t = (t', y)"
        then show "preserves ?n t t'" using n2 by (auto intro: fill_row_st_preserves)
      qed
      with p3 have p4: "preserves ?n h h4" by (rule preserves_trans)
      then have n4: "?n \<le> length h4" by (simp add: preserves_def)
      show ?thesis
      proof (cases r4)
        case (Some e)
        with assms a dn g grps' Inr l have "h' = h4" and "res = Inl e"
          by (simp_all add: array2df_st_def Let_def alloc_def)
        with p4 show ?thesis by simp
      next
        case None
        with assms a dn g grps' Inr l have "dtype_inference_st pd ?df h4 = (h', res)"
          by (simp add: array2df_st_def Let_def alloc_def)
        from dtype_inference_st_result [OF this n4] p4 n4 show ?thesis
          by (auto intro: preserves_trans)
      qed
    qed
  qed
qed

text \<open>
  Claim C9. Whatever \<open>array2df\<close> is called with and however it ends, the store it
  leaves is the store it started from with new objects appended: every object that
  existed before, the array, \<open>dim_names\<close>, the \<open>groups\<close> container and each group among
  them, is unchanged; and a returned frame lives at an address that did not exist before.
\<close>

theorem array2df_st_inputs_unchanged:
  assumes "array2df_st pd arr dim_names grps value_name h = (h', res)"
  shows "(\<exists>new. h' = h @ new) \<and>
         (\<forall>a<length h. deref h' a = deref h a) \<and>
         (\<forall>df. res = Inr df \<longrightarrow>
            length h \<le> df \<and> (\<exists>d. deref h' df = Some (FrameObj d)))"
proof -
  from array2df_st_preserves [OF assms]
  have p: "preserves (length h) h h'"
    and r: "\<forall>a. res = Inr a \<longrightarrow> length h \<le> a \<and> (\<exists>d. deref h' a = Some (FrameObj d))"
    by blast+
  from p have t: "take (length h) h' = h" and l: "length h \<le> length h'"
    by (simp_all add: preserves_def)
  have "h' = h @ drop (length h) h'"
    using t by (metis append_take_drop_id)
  then have e: "\<exists>new. h' = h @ new" ..
  have "deref h' a = deref h a" if "a < length h" for a
  proof -
    from that t have "h' ! a = h ! a" by (metis nth_take)
    with that l show ?thesis by (simp add: deref_def)
  qed
  with e r show ?thesis by blast
qed

theorem array2df_st_inputs_unchanged_witness:
  "snd (array2df_st pandas_recent 0 None (Some 2) ''value'' small_store) = Inr 8 \<and>
   (\<exists>new. fst (array2df_st pandas_recent 0 None (Some 2) ''value'' small_store) =
            small_store @ new) \<and>
   length small_store \<le> 8 \<and>
   frame_at (fst (array2df_st pandas_recent 0 None (Some 2) ''value'' small_store)) 8 =
     Some \<lparr>columns = [''value'', ''dim_i''],
            rows = [[Num 0, Lab ''a''], [Num 1, Lab ''b'']],
            dtypes = [Numeric, Object]\<rparr>"
proof -
  let ?run = "array2df_st pandas_recent 0 None (Some 2) ''value'' small_store"
  have r: "snd ?run = Inr 8" by code_simp
  have f: "frame_at (fst ?run) 8 =
     Some \<lparr>columns = [''value'', ''dim_i''],
            rows = [[Num 0, Lab ''a''], [Num 1, Lab ''b'']],
            dtypes = [Numeric, Object]\<rparr>" by code_simp
  have "?run = (fst ?run, snd ?run)" by simp
  from array2df_st_inputs_unchanged [OF this] r
  have "(\<exists>new. fst ?run = small_store @ new)" and "length small_store \<le> 8"
    by auto
  with r f show ?thesis by blast
qed

end
